(* ===== verification/Prelude.thy ===== *)
theory Prelude
  imports Main "HOL-Library.Word" "HOL-Library.Code_Target_Nat"
begin

text \<open>
  Shared vocabulary of the development: the names of the machine types, the
  collections of simplification rules the component theories fill, and generic facts
  on lists that more than one component needs.

  A Rust \<open>String\<close> is modelled as the list of its Unicode scalar values
  (type \<open>ustr\<close>), a byte buffer as a list of 8-bit words. A \<open>usize\<close> is a
  natural number; the bound \<open>usize_bound\<close> of a 64-bit target is written out where
  the program can reach it (parsing a number). A fallible operation returns a sum, with
  the error on the left.
\<close>

section \<open>Types\<close>

type_synonym u8 = "8 word"
type_synonym u16 = "16 word"
type_synonym u32 = "32 word"
type_synonym u64 = "64 word"
type_synonym uuid = "128 word"
type_synonym bytes = "u8 list"
type_synonym ustr = "nat list"

abbreviation usize_bound :: nat where
  "usize_bound \<equiv> 2 ^ 64"

section \<open>Rule collections\<close>

text \<open>
  \<open>byte_defs\<close> holds the defining equations of the protocol bytes, \<open>const_defs\<close>
  those of the message constants, and \<open>says_defs\<close> those that follow a line through the handler.
\<close>

named_theorems byte_defs
named_theorems const_defs
named_theorems says_defs

section \<open>Lists\<close>

declare length_dropWhile_le [simp]

lemma hd_dropWhile_False: "dropWhile P xs = y # ys \<Longrightarrow> \<not> P y"
  by (metis dropWhile_eq_Cons_conv)

lemma dropWhile_none: "xs = [] \<or> \<not> P (hd xs) \<Longrightarrow> dropWhile P xs = xs"
  by (cases xs) auto

lemma take_Suc_update:
  "n < length xs \<Longrightarrow> take (Suc n) (xs[n := x]) = take n xs @ [x]"
  by (simp add: take_Suc_conv_app_nth)

lemma apsnd_append_snoc [simp]:
  "apsnd ((@) (xs @ [x])) r = apsnd ((@) xs) (apsnd ((#) x) r)"
  by (cases r) simp

lemma apsnd_append_Nil [simp]: "apsnd ((@) []) r = r"
  by (cases r) simp

section \<open>Sums as results\<close>

definition is_ok :: "'e + 'a \<Rightarrow> bool" where
  "is_ok r = (case r of Inl _ \<Rightarrow> False | Inr _ \<Rightarrow> True)"

definition map_err :: "('e \<Rightarrow> 'f) \<Rightarrow> 'e + 'a \<Rightarrow> 'f + 'a" where
  "map_err f r = (case r of Inl e \<Rightarrow> Inl (f e) | Inr x \<Rightarrow> Inr x)"

definition and_then :: "'e + 'a \<Rightarrow> ('a \<Rightarrow> 'e + 'b) \<Rightarrow> 'e + 'b" where
  "and_then r k = (case r of Inl e \<Rightarrow> Inl e | Inr x \<Rightarrow> k x)"

lemma is_ok_simps [simp]: "\<not> is_ok (Inl e)" "is_ok (Inr x)"
  by (simp_all add: is_ok_def)

lemma map_err_simps [simp]: "map_err f (Inl e) = Inl (f e)" "map_err f (Inr x) = Inr x"
  by (simp_all add: map_err_def)

lemma and_then_simps [simp]: "and_then (Inl e) k = Inl e" "and_then (Inr x) k = k x"
  by (simp_all add: and_then_def)

lemma and_then_Inr_iff: "and_then r k = Inr y \<longleftrightarrow> (\<exists>x. r = Inr x \<and> k x = Inr y)"
  by (cases r) auto

lemma map_err_Inr_iff [simp]: "map_err f r = Inr y \<longleftrightarrow> r = Inr y"
  by (cases r) auto

lemma is_ok_map_err [simp]: "is_ok (map_err f r) = is_ok r"
  by (cases r) auto

section \<open>Machines and their invariants\<close>

text \<open>
  A run of a machine is a fold of its step over a list of events. \<open>allowed\<close> says
  that each event meets its guard in the state it is applied to. A component gives its step,
  a guard and an invariant and gets the invariant of every run.
\<close>

fun allowed :: "('e \<Rightarrow> 's \<Rightarrow> bool) \<Rightarrow> ('e \<Rightarrow> 's \<Rightarrow> 's) \<Rightarrow> 'e list \<Rightarrow> 's \<Rightarrow> bool" where
  "allowed guard step [] s = True"
| "allowed guard step (e # es) s = (guard e s \<and> allowed guard step es (step e s))"

locale guarded_machine =
  fixes step :: "'e \<Rightarrow> 's \<Rightarrow> 's" and guard :: "'e \<Rightarrow> 's \<Rightarrow> bool" and inv :: "'s \<Rightarrow> bool"
  assumes keeps: "inv s \<Longrightarrow> guard e s \<Longrightarrow> inv (step e s)"
begin

lemma run_keeps: "allowed guard step es s \<Longrightarrow> inv s \<Longrightarrow> inv (fold step es s)"
  by (induction es arbitrary: s) (auto intro: keeps)

lemma run_keeps_always: "(\<And>e t. e \<in> set es \<Longrightarrow> guard e t) \<Longrightarrow> inv s \<Longrightarrow> inv (fold step es s)"
  by (induction es arbitrary: s) (auto intro: keeps)

end

lemma allowed_append:
  "allowed guard step (xs @ ys) s \<longleftrightarrow> allowed guard step xs s \<and> allowed guard step ys (fold step xs s)"
  by (induction xs arbitrary: s) auto

end
