(* ===== verification/RustText.thy ===== *)
theory RustText
  imports Prelude
begin

text \<open>
  The parts of Rust's \<open>str\<close>, \<open>char\<close> and integer formatting that the program
  calls: \<open>trim\<close>, \<open>trim_end_matches\<close>, \<open>to_ascii_lowercase\<close>,
  \<open>replace\<close>, \<open>to_string\<close> and \<open>parse::<usize>\<close> on integers, padding
  in \<open>format!\<close>, UTF-8 encoding and the lossy UTF-8 decoding of
  \<open>String::from_utf8_lossy\<close>. They are the standard library's documented behaviour,
  written as executable functions on lists of scalar values and bytes.
\<close>

section \<open>Literals and characters\<close>

definition lit :: "string \<Rightarrow> ustr" where
  "lit s = map of_char s"

lemma lit_simps [simp]: "lit [] = []" "lit (c # cs) = of_char c # lit cs"
  by (simp_all add: lit_def)

lemma length_lit [simp]: "length (lit s) = length s"
  by (simp add: lit_def)

text \<open>A Unicode scalar value: every code point but the surrogates.\<close>

definition scalar :: "nat \<Rightarrow> bool" where
  "scalar c = (c < 0xD800 \<or> (0xE000 \<le> c \<and> c < 0x110000))"

definition valid_str :: "ustr \<Rightarrow> bool" where
  "valid_str s = list_all scalar s"

text \<open>The characters with the Unicode property \<open>White_Space\<close>.\<close>

definition is_whitespace :: "nat \<Rightarrow> bool" where
  "is_whitespace c =
    ((9 \<le> c \<and> c \<le> 13) \<or> c = 32 \<or> c = 0x85 \<or> c = 0xA0 \<or> c = 0x1680 \<or>
     (0x2000 \<le> c \<and> c \<le> 0x200A) \<or> c = 0x2028 \<or> c = 0x2029 \<or> c = 0x202F \<or>
     c = 0x205F \<or> c = 0x3000)"

definition trim_start :: "ustr \<Rightarrow> ustr" where
  "trim_start s = dropWhile is_whitespace s"

definition trim_end_where :: "(nat \<Rightarrow> bool) \<Rightarrow> ustr \<Rightarrow> ustr" where
  "trim_end_where P s = rev (dropWhile P (rev s))"

definition trim :: "ustr \<Rightarrow> ustr" where
  "trim s = trim_end_where is_whitespace (trim_start s)"

definition ascii_lower :: "nat \<Rightarrow> nat" where
  "ascii_lower c = (if 65 \<le> c \<and> c \<le> 90 then c + 32 else c)"

definition to_ascii_lowercase :: "ustr \<Rightarrow> ustr" where
  "to_ascii_lowercase s = map ascii_lower s"

text \<open>\<open>str::starts_with\<close> and \<open>str::contains\<close> on a text pattern.\<close>

fun str_starts_with :: "ustr \<Rightarrow> ustr \<Rightarrow> bool" where
  "str_starts_with [] s = True"
| "str_starts_with (p # ps) [] = False"
| "str_starts_with (p # ps) (c # cs) = (p = c \<and> str_starts_with ps cs)"

fun str_contains :: "ustr \<Rightarrow> ustr \<Rightarrow> bool" where
  "str_contains pat [] = (pat = [])"
| "str_contains pat (c # cs) = (str_starts_with pat (c # cs) \<or> str_contains pat cs)"

lemma str_contains_iff: "str_contains pat s \<longleftrightarrow> (\<exists>xs ys. s = xs @ pat @ ys)"
proof -
  have start: "str_starts_with pat s \<longleftrightarrow> (\<exists>ys. s = pat @ ys)" for pat s
    by (induction pat s rule: str_starts_with.induct) auto
  show ?thesis
  proof (induction s)
    case (Cons c cs)
    have "(\<exists>xs ys. c # cs = xs @ pat @ ys) \<longleftrightarrow>
        (\<exists>ys. c # cs = pat @ ys) \<or> (\<exists>xs ys. cs = xs @ pat @ ys)"
      by (metis append_Cons append_Nil list.inject neq_Nil_conv)
    then show ?case
      by (simp add: start Cons.IH)
  qed auto
qed

text \<open>\<open>str::replace\<close>: each non-overlapping match of the pattern, from the left.\<close>

function str_replace :: "ustr \<Rightarrow> ustr \<Rightarrow> ustr \<Rightarrow> ustr" where
  "str_replace pat rep [] = []"
| "str_replace pat rep (c # cs) =
    (if pat \<noteq> [] \<and> take (length pat) (c # cs) = pat
     then rep @ str_replace pat rep (drop (length pat) (c # cs))
     else c # str_replace pat rep cs)"
  by pat_completeness auto
termination
proof (relation "measure (\<lambda>(pat, rep, s). length s)")
  fix pat rep :: ustr and c cs
  assume "pat \<noteq> [] \<and> take (length pat) (c # cs) = pat"
  then show "((pat, rep, drop (length pat) (c # cs)), pat, rep, c # cs)
      \<in> measure (\<lambda>(pat, rep, s). length s)"
    by (cases pat) auto
qed auto

section \<open>Trimming\<close>

lemma trim_end_where_append:
  "trim_end_where P (s @ [c]) = (if P c then trim_end_where P s else s @ [c])"
  by (simp add: trim_end_where_def)

lemma trim_end_where_Nil [simp]: "trim_end_where P [] = []"
  by (simp add: trim_end_where_def)

lemma trim_end_where_idem [simp]:
  "trim_end_where P (trim_end_where P s) = trim_end_where P s"
  by (simp add: trim_end_where_def)

lemma trim_end_where_prefix: "\<exists>t. s = trim_end_where P s @ t \<and> list_all P t"
proof -
  have "rev s = takeWhile P (rev s) @ dropWhile P (rev s)"
    by simp
  then have "s = rev (dropWhile P (rev s)) @ rev (takeWhile P (rev s))"
    by (metis rev_append rev_rev_ident)
  moreover have "list_all P (rev (takeWhile P (rev s)))"
    by (auto simp: list_all_iff dest: set_takeWhileD)
  ultimately show ?thesis
    unfolding trim_end_where_def by blast
qed

lemma hd_trim_end_where:
  "trim_end_where P s \<noteq> [] \<Longrightarrow> hd (trim_end_where P s) = hd s"
  using trim_end_where_prefix [of s P] by (metis hd_append2)

lemma trim_Nil [simp]: "trim [] = []"
  by (simp add: trim_def trim_start_def)

lemma trim_idem [simp]: "trim (trim s) = trim s"
proof (cases "trim s = []")
  case True
  then show ?thesis by simp
next
  case False
  let ?t = "trim_start s"
  have ne: "trim_end_where is_whitespace ?t \<noteq> []"
    using False by (simp add: trim_def)
  then have "?t \<noteq> []"
    by (metis trim_end_where_Nil)
  then have "\<not> is_whitespace (hd ?t)"
    unfolding trim_start_def by (rule hd_dropWhile)
  then have "\<not> is_whitespace (hd (trim s))"
    using hd_trim_end_where [OF ne] by (simp add: trim_def)
  then have "trim_start (trim s) = trim s"
    unfolding trim_start_def by (simp add: dropWhile_none)
  then show ?thesis
    by (simp add: trim_def)
qed

lemma set_trim: "set (trim s) \<subseteq> set s"
proof -
  have "set (trim_end_where is_whitespace (trim_start s)) \<subseteq> set (trim_start s)"
    using trim_end_where_prefix [of "trim_start s" is_whitespace]
    by (metis Un_upper1 set_append)
  also have "\<dots> \<subseteq> set s"
    by (auto simp: trim_start_def dest: set_dropWhileD)
  finally show ?thesis
    by (simp add: trim_def)
qed

lemma trim_no_ws:
  assumes "list_all (\<lambda>c. \<not> is_whitespace c) s"
  shows "trim s = s"
proof -
  have "dropWhile is_whitespace s = s" and "dropWhile is_whitespace (rev s) = rev s"
    using assms by (auto simp: dropWhile_eq_self_iff list_all_iff hd_rev)
  then show ?thesis
    by (simp add: trim_def trim_start_def trim_end_where_def)
qed

section \<open>Decimal numbers\<close>

fun nat_digits :: "nat \<Rightarrow> ustr" where
  "nat_digits n = (if n < 10 then [48 + n] else nat_digits (n div 10) @ [48 + n mod 10])"

declare nat_digits.simps [simp del]

text \<open>\<open>to_string\<close> on a \<open>usize\<close> and on an \<open>i64\<close>.\<close>

definition usize_to_string :: "nat \<Rightarrow> ustr" where
  "usize_to_string n = nat_digits n"

definition i64_to_string :: "int \<Rightarrow> ustr" where
  "i64_to_string i = (if i < 0 then 45 # nat_digits (nat (- i)) else nat_digits (nat i))"

datatype int_error = IntEmpty | InvalidDigit | PosOverflow

text \<open>
  \<open>str::parse::<usize>\<close>: an optional plus sign, then ASCII digits, with the
  multiplication and the addition checked for overflow at every digit.
\<close>

fun parse_digits :: "nat \<Rightarrow> ustr \<Rightarrow> int_error + nat" where
  "parse_digits acc [] = Inr acc"
| "parse_digits acc (c # cs) =
    (if \<not> (48 \<le> c \<and> c \<le> 57) then Inl InvalidDigit
     else if usize_bound \<le> acc * 10 then Inl PosOverflow
     else if usize_bound \<le> acc * 10 + (c - 48) then Inl PosOverflow
     else parse_digits (acc * 10 + (c - 48)) cs)"

definition parse_usize :: "ustr \<Rightarrow> int_error + nat" where
  "parse_usize s =
    (case s of
       [] \<Rightarrow> Inl IntEmpty
     | c # cs \<Rightarrow>
         if cs = [] \<and> (c = 43 \<or> c = 45) then Inl InvalidDigit
         else if c = 43 then parse_digits 0 cs
         else parse_digits 0 s)"

text \<open>Width padding of \<open>format!\<close>: left-aligned, counted in characters.\<close>

definition pad_right :: "nat \<Rightarrow> ustr \<Rightarrow> ustr" where
  "pad_right w s = s @ replicate (w - length s) 32"

lemma nat_digits_small: "n < 10 \<Longrightarrow> nat_digits n = [48 + n]"
  by (subst nat_digits.simps) simp

lemma nat_digits_big:
  "\<not> n < 10 \<Longrightarrow> nat_digits n = nat_digits (n div 10) @ [48 + n mod 10]"
  by (subst nat_digits.simps) simp

lemma nat_digits_ne [simp]: "nat_digits n \<noteq> []"
  by (subst nat_digits.simps) simp

lemma nat_digits_digits: "\<forall>c \<in> set (nat_digits n). 48 \<le> c \<and> c \<le> 57"
proof (induction n rule: nat_digits.induct)
  case (1 n)
  then show ?case
    by (cases "n < 10") (auto simp: nat_digits_small nat_digits_big)
qed

lemma usize_to_string_ne [simp]: "usize_to_string n \<noteq> []"
  by (simp add: usize_to_string_def)

lemma parse_digits_append:
  "parse_digits acc (xs @ ys) = and_then (parse_digits acc xs) (\<lambda>a. parse_digits a ys)"
  by (induction xs arbitrary: acc) auto

lemma parse_digits_nat_digits: "n < usize_bound \<Longrightarrow> parse_digits 0 (nat_digits n) = Inr n"
proof (induction n rule: nat_digits.induct)
  case (1 n)
  show ?case
  proof (cases "n < 10")
    case True
    then show ?thesis by (simp add: nat_digits_small)
  next
    case False
    have "n div 10 < usize_bound"
      using "1.prems" by simp
    with "1.IH" [OF False] have "parse_digits 0 (nat_digits (n div 10)) = Inr (n div 10)"
      by simp
    moreover have "n div 10 * 10 + n mod 10 = n"
      by simp
    moreover have "n div 10 * 10 < usize_bound"
      using "1.prems" by linarith
    ultimately show ?thesis
      using False "1.prems" by (simp add: nat_digits_big parse_digits_append)
  qed
qed

lemma parse_usize_to_string: "n < usize_bound \<Longrightarrow> parse_usize (usize_to_string n) = Inr n"
proof -
  assume n: "n < usize_bound"
  obtain c cs where d: "nat_digits n = c # cs"
    by (cases "nat_digits n") auto
  then have "48 \<le> c \<and> c \<le> 57"
    using nat_digits_digits [of n] by simp
  then show ?thesis
    using parse_digits_nat_digits [OF n] d
    by (simp add: parse_usize_def usize_to_string_def)
qed

lemma parse_digits_bound: "parse_digits acc s = Inr n \<Longrightarrow> acc < usize_bound \<Longrightarrow> n < usize_bound"
  by (induction s arbitrary: acc) (auto split: if_splits)

lemma parse_usize_bound: "parse_usize s = Inr n \<Longrightarrow> n < usize_bound"
  unfolding parse_usize_def
  by (auto split: list.splits if_splits dest!: parse_digits_bound)

lemma digit_not_whitespace: "48 \<le> c \<Longrightarrow> c \<le> 57 \<Longrightarrow> \<not> is_whitespace c"
  by (simp add: is_whitespace_def)

lemma trim_usize_to_string [simp]: "trim (usize_to_string n) = usize_to_string n"
  using nat_digits_digits [of n]
  by (intro trim_no_ws) (auto simp: usize_to_string_def list_all_iff digit_not_whitespace)

lemma length_pad_right: "length s \<le> w \<Longrightarrow> length (pad_right w s) = w"
  by (simp add: pad_right_def)

end
