(* ===== verification/Utf8.thy ===== *)
theory Utf8
  imports RustText
begin

text \<open>
  UTF-8 as the program meets it: \<open>encode\<close> is \<open>str::as_bytes\<close>,
  \<open>from_utf8_lossy\<close> is \<open>String::from_utf8_lossy\<close>, which replaces each
  maximal prefix of an ill-formed sequence by one U+FFFD. The lemmas give the round trip
  on valid strings and say which bytes an encoding can hold: never \<open>0xFF\<close>, and a
  byte below \<open>0x80\<close> only as itself.
\<close>

section \<open>Encoding\<close>

definition byte :: "nat \<Rightarrow> u8" where
  "byte n = word_of_nat n"

definition encode_char :: "nat \<Rightarrow> bytes" where
  "encode_char c =
    (if c < 0x80 then [byte c]
     else if c < 0x800 then [byte (0xC0 + c div 64 mod 32), byte (0x80 + c mod 64)]
     else if c < 0x10000 then
       [byte (0xE0 + c div 4096 mod 16), byte (0x80 + c div 64 mod 64), byte (0x80 + c mod 64)]
     else
       [byte (0xF0 + c div 262144 mod 8), byte (0x80 + c div 4096 mod 64),
        byte (0x80 + c div 64 mod 64), byte (0x80 + c mod 64)])"

definition encode :: "ustr \<Rightarrow> bytes" where
  "encode s = concat (map encode_char s)"

section \<open>Lossy decoding\<close>

definition is_cont :: "u8 \<Rightarrow> bool" where
  "is_cont b = (0x80 \<le> unat b \<and> unat b < 0xC0)"

text \<open>The second byte a three- or four-byte sequence may have after its first.\<close>

definition second_ok :: "nat \<Rightarrow> u8 \<Rightarrow> bool" where
  "second_ok b0 b =
    (let b1 = unat b in
     if b0 = 0xE0 then 0xA0 \<le> b1 \<and> b1 \<le> 0xBF
     else if b0 = 0xED then 0x80 \<le> b1 \<and> b1 \<le> 0x9F
     else if b0 = 0xF0 then 0x90 \<le> b1 \<and> b1 \<le> 0xBF
     else if b0 = 0xF4 then 0x80 \<le> b1 \<and> b1 \<le> 0x8F
     else 0x80 \<le> b1 \<and> b1 \<le> 0xBF)"

text \<open>
  One step: the scalar value at the front, or \<open>None\<close> for an ill-formed sequence,
  with the bytes after what was inspected.
\<close>

fun utf8_next :: "bytes \<Rightarrow> nat option \<times> bytes" where
  "utf8_next [] = (None, [])"
| "utf8_next (b # bs) =
    (let b0 = unat b in
     if b0 < 0x80 then (Some b0, bs)
     else if 0xC2 \<le> b0 \<and> b0 \<le> 0xDF then
       (case bs of
          [] \<Rightarrow> (None, [])
        | b1 # r1 \<Rightarrow>
            if is_cont b1 then (Some (b0 mod 32 * 64 + unat b1 mod 64), r1) else (None, bs))
     else if 0xE0 \<le> b0 \<and> b0 \<le> 0xEF then
       (case bs of
          [] \<Rightarrow> (None, [])
        | b1 # r1 \<Rightarrow>
            if \<not> second_ok b0 b1 then (None, bs)
            else (case r1 of
                [] \<Rightarrow> (None, [])
              | b2 # r2 \<Rightarrow>
                  if is_cont b2
                  then (Some (b0 mod 16 * 4096 + unat b1 mod 64 * 64 + unat b2 mod 64), r2)
                  else (None, r1)))
     else if 0xF0 \<le> b0 \<and> b0 \<le> 0xF4 then
       (case bs of
          [] \<Rightarrow> (None, [])
        | b1 # r1 \<Rightarrow>
            if \<not> second_ok b0 b1 then (None, bs)
            else (case r1 of
                [] \<Rightarrow> (None, [])
              | b2 # r2 \<Rightarrow>
                  if \<not> is_cont b2 then (None, r1)
                  else (case r2 of
                      [] \<Rightarrow> (None, [])
                    | b3 # r3 \<Rightarrow>
                        if is_cont b3
                        then (Some (b0 mod 8 * 262144 + unat b1 mod 64 * 4096 +
                                unat b2 mod 64 * 64 + unat b3 mod 64), r3)
                        else (None, r2))))
     else (None, bs))"

lemma utf8_next_shorter: "utf8_next (b # bs) = (r, rest) \<Longrightarrow> length rest \<le> length bs"
  by (auto simp: Let_def split: if_splits list.splits)

function from_utf8_lossy :: "bytes \<Rightarrow> ustr" where
  "from_utf8_lossy [] = []"
| "from_utf8_lossy (b # bs) =
    (case utf8_next (b # bs) of
       (None, rest) \<Rightarrow> 0xFFFD # from_utf8_lossy rest
     | (Some c, rest) \<Rightarrow> c # from_utf8_lossy rest)"
  by pat_completeness auto
termination
  by (relation "measure length") (auto simp del: utf8_next.simps simp: less_Suc_eq_le
      dest: utf8_next_shorter [OF sym])

declare from_utf8_lossy.simps(2) [simp del]

text \<open>Induction along the decoder's own steps, and the equation of one step.\<close>

lemma from_utf8_lossy_induct [case_names Nil Step]:
  assumes "P []"
    and "\<And>b bs x r. utf8_next (b # bs) = (x, r) \<Longrightarrow> P r \<Longrightarrow> P (b # bs)"
  shows "P bs"
proof (induction bs rule: measure_induct_rule [where f = length])
  case (less bs)
  show ?case
  proof (cases bs)
    case Nil
    with assms(1) show ?thesis by simp
  next
    case (Cons b bs')
    obtain x r where n: "utf8_next (b # bs') = (x, r)"
      by (cases "utf8_next (b # bs')")
    then have "length r < length bs"
      using utf8_next_shorter Cons by fastforce
    then show ?thesis
      using less assms(2) [OF n] Cons by blast
  qed
qed

lemma from_utf8_lossy_step:
  "utf8_next (b # bs) = (x, r) \<Longrightarrow>
   from_utf8_lossy (b # bs) = (case x of None \<Rightarrow> 0xFFFD | Some c \<Rightarrow> c) # from_utf8_lossy r"
  by (simp add: from_utf8_lossy.simps(2) del: utf8_next.simps split: option.splits)

section \<open>What an encoding holds\<close>

lemma unat_byte: "n < 256 \<Longrightarrow> unat (byte n) = n"
  by (simp add: byte_def unat_of_nat take_bit_nat_eq_self)

lemma byte_eq_iff: "m < 256 \<Longrightarrow> n < 256 \<Longrightarrow> byte m = byte n \<longleftrightarrow> m = n"
  by (metis unat_byte)

lemma encode_Nil [simp]: "encode [] = []"
  by (simp add: encode_def)

lemma encode_Cons [simp]: "encode (c # s) = encode_char c @ encode s"
  by (simp add: encode_def)

lemma encode_append [simp]: "encode (s @ t) = encode s @ encode t"
  by (simp add: encode_def)

lemma encode_char_unat:
  "b \<in> set (encode_char c) \<Longrightarrow> unat b < 0xF8 \<and> (unat b < 0x80 \<longrightarrow> unat b = c)"
  by (auto simp: encode_char_def unat_byte split: if_splits)

lemma encode_no_FF [simp]: "0xFF \<notin> set (encode s)"
proof
  assume "0xFF \<in> set (encode s)"
  then obtain c where "(0xFF :: u8) \<in> set (encode_char c)"
    by (auto simp: encode_def)
  then have "unat (0xFF :: u8) < 0xF8"
    using encode_char_unat by blast
  then show False by simp
qed

lemma encode_ascii_mem: "b \<in> set (encode s) \<Longrightarrow> unat b < 0x80 \<Longrightarrow> unat b \<in> set s"
  using encode_char_unat by (fastforce simp: encode_def)

section \<open>Round trip\<close>

lemma div_64_64: "c div 4096 = c div 64 div 64" "c div 262144 = c div 64 div 64 div 64" for c :: nat
  by (simp_all add: div_mult2_eq [symmetric])

text \<open>The payload bits of a lead or continuation byte, as a subtraction.\<close>

lemma payload_bits:
  fixes n :: nat
  shows "0x80 \<le> n \<Longrightarrow> n < 0xC0 \<Longrightarrow> n mod 64 = n - 0x80"
    and "0xC0 \<le> n \<Longrightarrow> n < 0xE0 \<Longrightarrow> n mod 32 = n - 0xC0"
    and "0xE0 \<le> n \<Longrightarrow> n < 0xF0 \<Longrightarrow> n mod 16 = n - 0xE0"
    and "0xF0 \<le> n \<Longrightarrow> n < 0xF8 \<Longrightarrow> n mod 8 = n - 0xF0"
  by (rule mod_nat_eqI; simp)+

lemma utf8_next_encode_char:
  assumes "scalar c"
  shows "utf8_next (encode_char c @ r) = (Some c, r)"
proof -
  define q1 q2 q3 where "q1 = c div 64" and "q2 = q1 div 64" and "q3 = q2 div 64"
  have q: "c div 64 = q1" "c div 4096 = q2" "c div 262144 = q3"
    by (simp_all add: q1_def q2_def q3_def div_64_64)
  have c: "q1 * 64 + c mod 64 = c" and c1: "q2 * 64 + q1 mod 64 = q1" and c2: "q3 * 64 + q2 mod 64 = q2"
    by (simp_all add: q1_def q2_def q3_def)
  have bounds: "c mod 64 < 64" "q1 mod 64 < 64" "q2 mod 64 < 64"
    by simp_all
  have bounds': "q1 mod 64 \<le> 63" "q2 mod 64 \<le> 63"
    using bounds by linarith+
  consider (one) "c < 0x80" | (two) "0x80 \<le> c" "c < 0x800"
    | (three) "0x800 \<le> c" "c < 0x10000" | (four) "0x10000 \<le> c"
    by linarith
  then show ?thesis
  proof cases
    case one
    then show ?thesis by (simp add: encode_char_def unat_byte)
  next
    case two
    then have "2 \<le> q1" "q1 < 32" using c bounds by linarith+
    with two c show ?thesis
      by (simp add: encode_char_def q unat_byte is_cont_def Let_def payload_bits)
  next
    case three
    then have d: "q2 < 16" "c = q2 * 4096 + q1 mod 64 * 64 + c mod 64" using c c1 bounds by linarith+
    have "q2 = 0 \<Longrightarrow> 32 \<le> q1 mod 64" "q2 = 13 \<Longrightarrow> q1 mod 64 \<le> 31"
      using three assms c c1 bounds unfolding scalar_def by linarith+
    with three bounds' d(1) d(2) [symmetric] show ?thesis
      by (simp add: encode_char_def q unat_byte is_cont_def second_ok_def Let_def payload_bits)
  next
    case four
    have top: "c < 0x110000"
      using four assms by (auto simp: scalar_def)
    then have d: "q3 < 5" "c = q3 * 262144 + q2 mod 64 * 4096 + q1 mod 64 * 64 + c mod 64"
      using c c1 c2 bounds by linarith+
    have "q3 = 0 \<Longrightarrow> 16 \<le> q2 mod 64" "q3 = 4 \<Longrightarrow> q2 mod 64 \<le> 15"
      using four top c c1 c2 bounds by linarith+
    with four bounds' d(1) d(2) [symmetric] show ?thesis
      by (simp add: encode_char_def q unat_byte is_cont_def second_ok_def Let_def payload_bits)
  qed
qed

lemma encode_char_ne [simp]: "encode_char c \<noteq> []"
  by (simp add: encode_char_def)

theorem from_utf8_lossy_encode: "valid_str s \<Longrightarrow> from_utf8_lossy (encode s) = s"
proof (induction s)
  case Nil
  then show ?case by simp
next
  case (Cons c s)
  then have "utf8_next (encode_char c @ encode s) = (Some c, encode s)"
    by (intro utf8_next_encode_char) (simp add: valid_str_def)
  moreover obtain b bs where "encode_char c @ encode s = b # bs"
    by (cases "encode_char c @ encode s") auto
  ultimately show ?case
    using Cons by (simp add: valid_str_def from_utf8_lossy.simps(2) del: utf8_next.simps)
qed

section \<open>A decoded string is valid\<close>

lemma utf8_next_scalar: "utf8_next bs = (Some c, r) \<Longrightarrow> scalar c"
proof (cases bs)
  case (Cons b bs')
  moreover assume "utf8_next bs = (Some c, r)"
  ultimately show ?thesis
    by (auto simp: Let_def scalar_def second_ok_def is_cont_def payload_bits
        split: if_splits list.splits; linarith)
qed simp

lemma scalar_replacement [simp]: "scalar 65533"
  by (simp add: scalar_def)

lemma valid_str_from_utf8_lossy [simp]: "valid_str (from_utf8_lossy bs)"
proof (induction bs rule: from_utf8_lossy_induct)
  case (Step b bs x r)
  then show ?case
    by (auto simp: from_utf8_lossy_step valid_str_def dest: utf8_next_scalar
        simp del: utf8_next.simps split: option.splits)
qed (simp add: valid_str_def)

text \<open>An ASCII character of the text was a byte of the input, and no text is longer than its bytes.\<close>

lemma utf8_next_ascii: "utf8_next (b # bs) = (Some c, r) \<Longrightarrow> c < 0x80 \<Longrightarrow> unat b = c"
  by (auto simp: Let_def second_ok_def is_cont_def payload_bits split: if_splits list.splits; linarith)

lemma utf8_next_suffix: "utf8_next (b # bs) = (x, r) \<Longrightarrow> \<exists>p. bs = p @ r"
  by (auto simp: Let_def split: if_splits list.splits)

lemma from_utf8_lossy_ascii: "c \<in> set (from_utf8_lossy bs) \<Longrightarrow> c < 0x80 \<Longrightarrow> \<exists>b \<in> set bs. unat b = c"
proof (induction bs rule: from_utf8_lossy_induct)
  case (Step b bs x r)
  have r: "set r \<subseteq> set bs"
    using utf8_next_suffix [OF Step.hyps] by auto
  from Step.prems Step.hyps consider "x = Some c" | "c \<in> set (from_utf8_lossy r)"
    by (auto simp: from_utf8_lossy_step simp del: utf8_next.simps split: option.splits)
  then show ?case
  proof cases
    case 1
    with Step.hyps Step.prems(2) have "unat b = c"
      using utf8_next_ascii by blast
    then show ?thesis by simp
  next
    case 2
    then show ?thesis using Step.IH Step.prems(2) r by fastforce
  qed
qed simp

lemma length_from_utf8_lossy: "length (from_utf8_lossy bs) \<le> length bs"
proof (induction bs rule: from_utf8_lossy_induct)
  case (Step b bs x r)
  then show ?case
    using utf8_next_shorter [OF Step.hyps] by (simp add: from_utf8_lossy_step del: utf8_next.simps)
qed simp

text \<open>Evaluation takes one byte at a time through plain text.\<close>

lemma from_utf8_lossy_code [code]:
  "from_utf8_lossy [] = []"
  "from_utf8_lossy (b # bs) =
    (if b < 0x80 then unat b # from_utf8_lossy bs
     else case utf8_next (b # bs) of
         (None, rest) \<Rightarrow> 0xFFFD # from_utf8_lossy rest
       | (Some c, rest) \<Rightarrow> c # from_utf8_lossy rest)"
  by (simp_all add: from_utf8_lossy.simps(2) del: utf8_next.simps)
     (simp add: Let_def word_less_nat_alt)

section \<open>Strict decoding\<close>

text \<open>Bytes are well formed exactly when they are what their lossy reading encodes to.\<close>

definition from_utf8 :: "bytes \<Rightarrow> ustr option" where
  "from_utf8 bs = (let s = from_utf8_lossy bs in if encode s = bs then Some s else None)"

lemma from_utf8_encode [simp]: "valid_str s \<Longrightarrow> from_utf8 (encode s) = Some s"
  by (simp add: from_utf8_def from_utf8_lossy_encode)

lemma from_utf8_Some: "from_utf8 bs = Some s \<longleftrightarrow> valid_str s \<and> bs = encode s"
proof
  assume "from_utf8 bs = Some s"
  then have "s = from_utf8_lossy bs" and "encode s = bs"
    by (simp_all add: from_utf8_def Let_def split: if_splits)
  then show "valid_str s \<and> bs = encode s"
    by (metis valid_str_from_utf8_lossy)
qed auto

end
