(* ===== verification/Core.thy ===== *)
theory Core
  imports Utf8
begin

text \<open>
  The foundation crate \<open>liaozhai-core\<close>: the identifiers of \<open>id.rs\<close>, the
  error enumeration of \<open>error.rs\<close> with its display text, and the constants of
  \<open>constants.rs\<close>. A \<open>Uuid\<close> is its 128 bits; drawing a fresh one
  (\<open>Uuid::new_v4\<close>) is a value the caller supplies, and its text form is the
  \<open>uuid\<close> crate's, a parameter where the program uses it. An
  \<open>std::io::Error\<close> is represented by the text it displays.
\<close>

section \<open>Identifiers\<close>

datatype account_id = AccountId uuid
datatype world_id = WorldId uuid
datatype connection_id = ConnectionId uuid

definition account_id_new :: "uuid \<Rightarrow> account_id" where
  "account_id_new fresh = AccountId fresh"

definition account_id_from_uuid :: "uuid \<Rightarrow> account_id" where
  "account_id_from_uuid u = AccountId u"

fun account_id_uuid :: "account_id \<Rightarrow> uuid" where
  "account_id_uuid (AccountId u) = u"

definition account_id_display :: "(uuid \<Rightarrow> ustr) \<Rightarrow> account_id \<Rightarrow> ustr" where
  "account_id_display uuid_text i = uuid_text (account_id_uuid i)"

definition world_id_new :: "uuid \<Rightarrow> world_id" where
  "world_id_new fresh = WorldId fresh"

definition world_id_from_uuid :: "uuid \<Rightarrow> world_id" where
  "world_id_from_uuid u = WorldId u"

fun world_id_uuid :: "world_id \<Rightarrow> uuid" where
  "world_id_uuid (WorldId u) = u"

definition world_id_display :: "(uuid \<Rightarrow> ustr) \<Rightarrow> world_id \<Rightarrow> ustr" where
  "world_id_display uuid_text i = uuid_text (world_id_uuid i)"

definition connection_id_new :: "uuid \<Rightarrow> connection_id" where
  "connection_id_new fresh = ConnectionId fresh"

definition connection_id_from_uuid :: "uuid \<Rightarrow> connection_id" where
  "connection_id_from_uuid u = ConnectionId u"

fun connection_id_uuid :: "connection_id \<Rightarrow> uuid" where
  "connection_id_uuid (ConnectionId u) = u"

definition connection_id_display :: "(uuid \<Rightarrow> ustr) \<Rightarrow> connection_id \<Rightarrow> ustr" where
  "connection_id_display uuid_text i = uuid_text (connection_id_uuid i)"

lemma account_id_uuid_roundtrip [simp]: "account_id_from_uuid (account_id_uuid i) = i"
  by (cases i) (simp add: account_id_from_uuid_def)

section \<open>Errors\<close>

datatype error =
    Io ustr
  | Config ustr
  | Auth ustr
  | Net ustr
  | World ustr
  | Codec ustr

fun error_display :: "error \<Rightarrow> ustr" where
  "error_display (Io e) = lit ''I/O error: '' @ e"
| "error_display (Config e) = lit ''configuration error: '' @ e"
| "error_display (Auth e) = lit ''authentication error: '' @ e"
| "error_display (Net e) = lit ''network error: '' @ e"
| "error_display (World e) = lit ''world error: '' @ e"
| "error_display (Codec e) = lit ''codec error: '' @ e"

definition error_from_io :: "ustr \<Rightarrow> error" where
  "error_from_io e = Io e"

section \<open>Constants\<close>

definition crlf :: ustr where
  [const_defs]: "crlf = [13, 10]"

definition VERSION :: ustr where
  [const_defs]: "VERSION = lit ''0.1.0''"

definition BANNER :: ustr where
  [const_defs]: "BANNER =
    crlf @ lit ''  Liaozhai MUX '' @ [0x804a, 0x9f4b, 32, 0x2014, 32] @ lit ''v'' @ VERSION @
    crlf @ lit ''  Multi-User eXegesis'' @ crlf @ crlf"

definition DEFAULT_PORT :: u16 where
  "DEFAULT_PORT = 4444"

definition DEFAULT_BIND_ADDRESS :: ustr where
  "DEFAULT_BIND_ADDRESS = lit ''127.0.0.1''"

definition DEFAULT_MAX_CONNECTIONS :: nat where
  "DEFAULT_MAX_CONNECTIONS = 100"

definition DEFAULT_LOG_FILTER :: ustr where
  "DEFAULT_LOG_FILTER = lit ''info''"

definition MAX_LINE_LENGTH :: nat where
  "MAX_LINE_LENGTH = 4096"

definition MAX_BUFFER_SIZE :: nat where
  "MAX_BUFFER_SIZE = 10 * 1024 * 1024"

definition LINE_TOO_LONG_MSG :: ustr where
  [const_defs]: "LINE_TOO_LONG_MSG = lit ''Line too long; ignored.'' @ crlf"

definition BUFFER_OVERFLOW_MSG :: ustr where
  [const_defs]: "BUFFER_OVERFLOW_MSG = lit ''Buffer overflow; disconnecting.'' @ crlf"

definition GOODBYE_MSG :: ustr where
  [const_defs]: "GOODBYE_MSG = lit ''Until the next strange tale.'' @ crlf"

definition USERNAME_PROMPT :: ustr where
  [const_defs]: "USERNAME_PROMPT = lit ''Username: ''"

definition PASSWORD_PROMPT :: ustr where
  [const_defs]: "PASSWORD_PROMPT = lit ''Password: ''"

definition WORLDS_HEADER :: ustr where
  [const_defs]: "WORLDS_HEADER = lit ''Available worlds:''"

definition EMPTY_USERNAME_MSG :: ustr where
  [const_defs]: "EMPTY_USERNAME_MSG = lit ''Username cannot be empty.'' @ crlf"

definition EMPTY_PASSWORD_MSG :: ustr where
  [const_defs]: "EMPTY_PASSWORD_MSG = lit ''Password cannot be empty.'' @ crlf"

definition WORLD_SELECTION_NON_NUMERIC_MSG :: ustr where
  [const_defs]: "WORLD_SELECTION_NON_NUMERIC_MSG = lit ''Please enter a number.'' @ crlf"

definition WORLD_SELECTION_OUT_OF_RANGE_MSG :: ustr where
  [const_defs]: "WORLD_SELECTION_OUT_OF_RANGE_MSG =
    lit ''Please enter a number between 1 and {n}.'' @ crlf"

definition WELCOME_TEMPLATE :: ustr where
  [const_defs]: "WELCOME_TEMPLATE = lit ''Welcome, {username}.'' @ crlf @ crlf"

definition WORLD_SELECTED_TEMPLATE :: ustr where
  [const_defs]: "WORLD_SELECTED_TEMPLATE =
    lit ''In v0.1, you would now be in {world}. Disconnecting.'' @ crlf"

definition WORLD_SELECT_PROMPT_TEMPLATE :: ustr where
  [const_defs]: "WORLD_SELECT_PROMPT_TEMPLATE =
    lit ''Select a world (1-{n}, or '' @ [39] @ lit ''quit'' @ [39] @ lit ''): ''"

definition AUTH_FAILED_MSG :: ustr where
  [const_defs]: "AUTH_FAILED_MSG = lit ''Authentication failed.'' @ crlf"

definition AUTH_MAX_RETRIES_MSG :: ustr where
  [const_defs]: "AUTH_MAX_RETRIES_MSG =
    lit ''Too many failed attempts. Disconnecting.'' @ crlf"

definition AUTH_RATE_LIMITED_MSG :: ustr where
  [const_defs]: "AUTH_RATE_LIMITED_MSG =
    lit ''Too many failed attempts from your IP. Try again later.'' @ crlf"

definition AUTH_INTERNAL_ERROR_MSG :: ustr where
  [const_defs]: "AUTH_INTERNAL_ERROR_MSG =
    lit ''Authentication error. Please try again later.'' @ crlf"

definition IAC_WILL_ECHO :: bytes where
  [byte_defs]: "IAC_WILL_ECHO = [0xFF, 0xFB, 0x01]"

definition IAC_WONT_ECHO :: bytes where
  [byte_defs]: "IAC_WONT_ECHO = [0xFF, 0xFC, 0x01]"

definition DEFAULT_MAX_LOGIN_ATTEMPTS :: u32 where
  "DEFAULT_MAX_LOGIN_ATTEMPTS = 3"

definition DEFAULT_ARGON2_MEMORY_COST :: u32 where
  "DEFAULT_ARGON2_MEMORY_COST = 19456"

definition DEFAULT_ARGON2_TIME_COST :: u32 where
  "DEFAULT_ARGON2_TIME_COST = 2"

definition DEFAULT_ARGON2_PARALLELISM :: u32 where
  "DEFAULT_ARGON2_PARALLELISM = 1"

definition DEFAULT_RATE_LIMIT_WINDOW_SECS :: u64 where
  "DEFAULT_RATE_LIMIT_WINDOW_SECS = 60"

definition DEFAULT_RATE_LIMIT_MAX_FAILURES :: nat where
  "DEFAULT_RATE_LIMIT_MAX_FAILURES = 10"

definition SERVER_FULL_MSG :: ustr where
  [const_defs]: "SERVER_FULL_MSG = lit ''Server is full. Try again later.'' @ crlf"

definition SHUTDOWN_MSG :: ustr where
  [const_defs]: "SHUTDOWN_MSG =
    lit ''The studio closes for now. Until the next strange tale.'' @ crlf"

definition DEFAULT_SHUTDOWN_DRAIN_SECS :: u64 where
  "DEFAULT_SHUTDOWN_DRAIN_SECS = 10"

definition DEFAULT_RATE_LIMITER_MAX_ENTRIES :: nat where
  "DEFAULT_RATE_LIMITER_MAX_ENTRIES = 10000"

section \<open>The templates, filled in\<close>

lemma fill_welcome:
  "str_replace (lit ''{username}'') u WELCOME_TEMPLATE = lit ''Welcome, '' @ u @ lit ''.'' @ crlf @ crlf"
  by (simp add: const_defs)

lemma fill_world_selected:
  "str_replace (lit ''{world}'') w WORLD_SELECTED_TEMPLATE =
    lit ''In v0.1, you would now be in '' @ w @ lit ''. Disconnecting.'' @ crlf"
  by (simp add: const_defs)

lemma fill_select_prompt:
  "str_replace (lit ''{n}'') n WORLD_SELECT_PROMPT_TEMPLATE =
    lit ''Select a world (1-'' @ n @ lit '', or '' @ [39] @ lit ''quit'' @ [39] @ lit ''): ''"
  by (simp add: const_defs)

lemma fill_out_of_range:
  "str_replace (lit ''{n}'') n WORLD_SELECTION_OUT_OF_RANGE_MSG =
    lit ''Please enter a number between 1 and '' @ n @ lit ''.'' @ crlf"
  by (simp add: const_defs)

lemmas template_fills = fill_welcome fill_world_selected fill_select_prompt fill_out_of_range

end
