(* ===== verification/Codec.thy ===== *)
theory Codec
  imports Core
begin

text \<open>
  The telnet line codec of \<open>crates/liaozhai-net/src/codec.rs\<close>: the codec's state as
  a record, the in-place loop of \<open>strip_iac\<close> with its read and write indices, the
  decoder \<open>decode\<close> with its recursive call while discarding, and
  \<open>decode_eof\<close>. Every operation takes the codec and the buffer and returns both
  updated, beside its result. The buffer (\<open>BytesMut\<close>) is a list of bytes.
\<close>

section \<open>Protocol bytes, items, errors and state\<close>

definition IAC :: u8 where [byte_defs]: "IAC = 0xFF"
definition SB :: u8 where [byte_defs]: "SB = 0xFA"
definition SE :: u8 where [byte_defs]: "SE = 0xF0"
definition WILL :: u8 where [byte_defs]: "WILL = 0xFB"
definition WONT :: u8 where [byte_defs]: "WONT = 0xFC"
definition DO :: u8 where [byte_defs]: "DO = 0xFD"
definition DONT :: u8 where [byte_defs]: "DONT = 0xFE"
definition LF :: u8 where [byte_defs]: "LF = 10"
definition CR :: u8 where [byte_defs]: "CR = 13"

definition is_negotiation :: "u8 \<Rightarrow> bool" where
  "is_negotiation cmd = (cmd = WILL \<or> cmd = WONT \<or> cmd = DO \<or> cmd = DONT)"

datatype codec_error =
    CodecIo ustr
  | BufferOverflow nat

datatype codec_item =
    Line ustr
  | LineTooLong

record codec =
  max_line_length :: nat
  max_buffer_size :: nat
  discarding :: bool
  in_subnegotiation :: bool
  subneg_iac_pending :: bool

fun codec_error_display :: "codec_error \<Rightarrow> ustr" where
  "codec_error_display (CodecIo e) = lit ''I/O error: '' @ e"
| "codec_error_display (BufferOverflow m) =
    lit ''buffer overflow (max '' @ usize_to_string m @ lit '' bytes)''"

fun codec_error_into :: "codec_error \<Rightarrow> error" where
  "codec_error_into (CodecIo io_err) = Io io_err"
| "codec_error_into (BufferOverflow m) = Codec (codec_error_display (BufferOverflow m))"

definition codec_new :: codec where
  "codec_new =
    \<lparr>max_line_length = MAX_LINE_LENGTH, max_buffer_size = MAX_BUFFER_SIZE,
     discarding = False, in_subnegotiation = False, subneg_iac_pending = False\<rparr>"

definition with_limits :: "nat \<Rightarrow> nat \<Rightarrow> codec" where
  "with_limits line_max buffer_max =
    \<lparr>max_line_length = line_max, max_buffer_size = buffer_max,
     discarding = False, in_subnegotiation = False, subneg_iac_pending = False\<rparr>"

section \<open>Stripping telnet commands\<close>

text \<open>The copy of an incomplete command to the write position (the \<open>for\<close> loop).\<close>

fun copy_down :: "bytes \<Rightarrow> nat \<Rightarrow> nat \<Rightarrow> nat \<Rightarrow> nat \<Rightarrow> bytes" where
  "copy_down buf wr rd i 0 = buf"
| "copy_down buf wr rd i (Suc n) = copy_down (buf[wr + i := buf ! (rd + i)]) wr rd (Suc i) n"

text \<open>
  The \<open>while\<close> loop of \<open>strip_iac\<close>. An iteration that falls through the
  pending test with an \<open>IAC\<close> in hand goes on to the plain subnegotiation test, as
  in the source.
\<close>

function strip_loop :: "codec \<Rightarrow> bytes \<Rightarrow> nat \<Rightarrow> nat \<Rightarrow> codec \<times> bytes \<times> nat" where
  "strip_loop c buf rd wr =
    (if rd < length buf then
       if in_subnegotiation c then
         if subneg_iac_pending c \<and> buf ! rd = SE then
           strip_loop (c\<lparr>subneg_iac_pending := False, in_subnegotiation := False\<rparr>) buf (rd + 1) wr
         else if subneg_iac_pending c \<and> buf ! rd \<noteq> IAC then
           strip_loop (c\<lparr>subneg_iac_pending := False\<rparr>) buf (rd + 1) wr
         else if buf ! rd = IAC then
           strip_loop (c\<lparr>subneg_iac_pending := True\<rparr>) buf (rd + 1) wr
         else strip_loop (c\<lparr>subneg_iac_pending := False\<rparr>) buf (rd + 1) wr
       else if buf ! rd \<noteq> IAC then
         strip_loop c (if wr \<noteq> rd then buf[wr := buf ! rd] else buf) (rd + 1) (wr + 1)
       else if length buf \<le> rd + 1 then
         (c, if wr \<noteq> rd then buf[wr := buf ! rd] else buf, wr + 1)
       else
         let cmd = buf ! (rd + 1) in
         if cmd = IAC then strip_loop c (buf[wr := IAC]) (rd + 2) (wr + 1)
         else if is_negotiation cmd then
           if length buf \<le> rd + 2 then
             let remaining = length buf - rd in
             (c, copy_down buf wr rd 0 remaining, wr + remaining)
           else strip_loop c buf (rd + 3) wr
         else if cmd = SB then
           strip_loop (c\<lparr>in_subnegotiation := True, subneg_iac_pending := False\<rparr>) buf (rd + 2) wr
         else strip_loop c buf (rd + 2) wr
     else (c, buf, wr))"
  by pat_completeness auto
termination
  by (relation "measure (\<lambda>(c, buf, rd, wr). length buf - rd)") auto

declare strip_loop.simps [simp del]

definition strip_iac :: "codec \<Rightarrow> bytes \<Rightarrow> codec \<times> bytes" where
  "strip_iac c buf = (case strip_loop c buf 0 0 of (c', buf', wr) \<Rightarrow> (c', take wr buf'))"

section \<open>Line terminators and text\<close>

text \<open>\<open>iter().position\<close>: the first line feed or carriage return.\<close>

fun find_line_terminator :: "bytes \<Rightarrow> nat option" where
  "find_line_terminator [] = None"
| "find_line_terminator (b # bs) =
    (if b = LF \<or> b = CR then Some 0 else map_option Suc (find_line_terminator bs))"

definition consume_terminator :: "bytes \<Rightarrow> nat \<Rightarrow> nat" where
  "consume_terminator buf pos =
    (if buf ! pos = CR \<and> pos + 1 < length buf \<and> buf ! (pos + 1) = LF then pos + 2 else pos + 1)"

definition lossy_decode_with_warning :: "bytes \<Rightarrow> ustr" where
  "lossy_decode_with_warning bs = from_utf8_lossy bs"

section \<open>The abstract reading of a byte sequence\<close>

text \<open>
  What \<open>strip_iac\<close> computes, without indices: a recursion over the bytes with the
  mode (outside a subnegotiation, inside one, inside one after an \<open>IAC\<close>). It
  returns the mode at the end and the bytes kept. An incomplete command at the end is kept.
\<close>

datatype mode = Data | Subneg | SubnegIac

fun strip_spec :: "mode \<Rightarrow> bytes \<Rightarrow> mode \<times> bytes" where
  "strip_spec m [] = (m, [])"
| "strip_spec SubnegIac (b # bs) =
    strip_spec (if b = SE then Data else if b = IAC then SubnegIac else Subneg) bs"
| "strip_spec Subneg (b # bs) = strip_spec (if b = IAC then SubnegIac else Subneg) bs"
| "strip_spec Data [b] = (Data, [b])"
| "strip_spec Data (b # cmd # bs) =
    (if b \<noteq> IAC then apsnd (Cons b) (strip_spec Data (cmd # bs))
     else if cmd = IAC then apsnd (Cons IAC) (strip_spec Data bs)
     else if is_negotiation cmd then
       (case bs of [] \<Rightarrow> (Data, [b, cmd]) | opt # rest \<Rightarrow> strip_spec Data rest)
     else if cmd = SB then strip_spec Subneg bs
     else strip_spec Data bs)"

definition mode_of :: "codec \<Rightarrow> mode" where
  "mode_of c =
    (if in_subnegotiation c then if subneg_iac_pending c then SubnegIac else Subneg else Data)"

definition frame_eq :: "codec \<Rightarrow> codec \<Rightarrow> bool" where
  "frame_eq c c' =
    (max_line_length c' = max_line_length c \<and> max_buffer_size c' = max_buffer_size c \<and>
     discarding c' = discarding c)"

lemma frame_eq_refl [simp]: "frame_eq c c"
  by (simp add: frame_eq_def)

lemma frame_eq_trans [trans]: "frame_eq a b \<Longrightarrow> frame_eq b c \<Longrightarrow> frame_eq a c"
  by (simp add: frame_eq_def)

lemma frame_eq_flags [simp]:
  "frame_eq (c\<lparr>subneg_iac_pending := p\<rparr>) c' = frame_eq c c'"
  "frame_eq (c\<lparr>in_subnegotiation := q\<rparr>) c' = frame_eq c c'"
  "frame_eq c (c'\<lparr>subneg_iac_pending := p\<rparr>) = frame_eq c c'"
  "frame_eq c (c'\<lparr>in_subnegotiation := q\<rparr>) = frame_eq c c'"
  by (auto simp: frame_eq_def)

lemma mode_of_simps [simp]:
  "\<not> in_subnegotiation c \<Longrightarrow> mode_of c = Data"
  "in_subnegotiation c \<Longrightarrow> subneg_iac_pending c \<Longrightarrow> mode_of c = SubnegIac"
  "in_subnegotiation c \<Longrightarrow> \<not> subneg_iac_pending c \<Longrightarrow> mode_of c = Subneg"
  by (simp_all add: mode_of_def)

lemma length_copy_down [simp]: "length (copy_down buf wr rd i n) = length buf"
  by (induction n arbitrary: buf i) auto

section \<open>The loop computes the abstract reading\<close>

text \<open>
  Two bytes are all an incomplete negotiation can hold, so the copy of the rest moves
  exactly the \<open>IAC\<close> and the command.
\<close>

lemma take_copy_down_two:
  assumes "wr \<le> rd" "length buf = rd + 2"
  shows "take (wr + 2) (copy_down buf wr rd 0 2) = take wr buf @ [buf ! rd, buf ! (rd + 1)]"
proof -
  let ?a = "buf[wr := buf ! rd]"
  have rd: "?a ! (rd + 1) = buf ! (rd + 1)"
    using assms by (cases "wr = rd + 1") auto
  have "copy_down buf wr rd 0 2 = ?a[wr + 1 := buf ! (rd + 1)]"
    using rd by (simp add: numeral_2_eq_2)
  moreover have "take (wr + 2) (?a[wr + 1 := buf ! (rd + 1)]) = take (wr + 1) ?a @ [buf ! (rd + 1)]"
    using take_Suc_update [of "wr + 1" ?a] assms by simp
  moreover have "take (wr + 1) ?a = take wr buf @ [buf ! rd]"
    using take_Suc_update [of wr buf] assms by simp
  ultimately show ?thesis by simp
qed

definition strip_post :: "codec \<Rightarrow> bytes \<Rightarrow> nat \<Rightarrow> nat \<Rightarrow> codec \<times> bytes \<times> nat \<Rightarrow> bool" where
  "strip_post c buf rd wr r =
    (case r of (c', buf', wr') \<Rightarrow>
       frame_eq c c' \<and> length buf' = length buf \<and> wr' \<le> length buf \<and>
       (mode_of c', take wr' buf') = apsnd (append (take wr buf)) (strip_spec (mode_of c) (drop rd buf)))"

lemma strip_postI_step:
  assumes "strip_post c1 buf1 rd1 wr1 r"
    and "frame_eq c c1" "length buf1 = length buf"
    and "apsnd (append (take wr1 buf1)) (strip_spec (mode_of c1) (drop rd1 buf1))
       = apsnd (append (take wr buf)) (strip_spec (mode_of c) (drop rd buf))"
  shows "strip_post c buf rd wr r"
  using assms by (auto simp: strip_post_def intro: frame_eq_trans split: prod.splits)

lemma strip_loop_refines:
  "wr \<le> rd \<Longrightarrow> rd \<le> length buf \<Longrightarrow> strip_post c buf rd wr (strip_loop c buf rd wr)"
proof (induction c buf rd wr rule: strip_loop.induct)
  case (1 c buf rd wr)
  note IH = "1.IH" [simplified] and le = "1.prems"
  show ?case
  proof (cases "rd < length buf")
    case False
    with le show ?thesis
      by (subst strip_loop.simps) (simp add: strip_post_def)
  next
    case True
    note rd = True
    then have d: "drop rd buf = buf ! rd # drop (Suc rd) buf"
      by (simp add: Cons_nth_drop_Suc)
    show ?thesis
    proof (cases "in_subnegotiation c")
      case sub: True
      show ?thesis
      proof (cases "subneg_iac_pending c")
        case True
        with sub show ?thesis
          using rd le d
          by (subst strip_loop.simps)
             (auto intro!: strip_postI_step [OF IH(1)] strip_postI_step [OF IH(2)]
                strip_postI_step [OF IH(3)] simp: mode_of_def)
      next
        case False
        with sub show ?thesis
          using rd le d
          by (subst strip_loop.simps)
             (auto intro!: strip_postI_step [OF IH(3)] strip_postI_step [OF IH(4)]
                simp: mode_of_def)
      qed
    next
      case data: False
      then have m: "mode_of c = Data" by simp
      show ?thesis
      proof (cases "buf ! rd = IAC")
        case False
        have buf: "(if wr \<noteq> rd then buf[wr := buf ! rd] else buf) = buf[wr := buf ! rd]"
          by simp
        have "strip_spec Data (drop rd buf) = apsnd (Cons (buf ! rd)) (strip_spec Data (drop (Suc rd) buf))"
          using False by (cases "drop (Suc rd) buf") (simp_all add: d)
        moreover have "take (Suc wr) (buf[wr := buf ! rd]) = take wr buf @ [buf ! rd]"
          using le rd by (intro take_Suc_update) simp
        ultimately show ?thesis
          using rd le data False
          by (subst strip_loop.simps)
             (auto simp: buf m prod.case_eq_if split: prod.splits
               intro!: strip_postI_step [OF IH(5) [unfolded buf]])
      next
        case iac: True
        show ?thesis
        proof (cases "length buf \<le> rd + 1")
          case True
          then have "drop rd buf = [buf ! rd]" "length buf = Suc rd"
            using rd d by auto
          then show ?thesis
            using rd le data iac take_Suc_update [of wr buf "buf ! rd"] append_take_drop_id [of rd buf]
            by (subst strip_loop.simps) (auto simp: strip_post_def m)
        next
          case more: False
          then have d2: "drop rd buf = IAC # buf ! Suc rd # drop (rd + 2) buf"
            using rd d iac by (simp add: Cons_nth_drop_Suc)
          show ?thesis
          proof (cases "is_negotiation (buf ! Suc rd) \<and> length buf \<le> rd + 2")
            case True
            then have "length buf = rd + 2" "buf ! Suc rd \<noteq> IAC"
              using more by (auto simp: is_negotiation_def byte_defs)
            then show ?thesis
              using rd le data iac True take_copy_down_two [of wr rd buf]
              by (subst strip_loop.simps) (simp add: strip_post_def m d2)
          next
            case False
            have esc: "take (Suc wr) (buf[wr := IAC]) = take wr buf @ [IAC]"
              using le rd by (intro take_Suc_update) simp
            have opt: "\<not> length buf \<le> rd + 2 \<Longrightarrow> drop (rd + 2) buf = buf ! (rd + 2) # drop (rd + 3) buf"
              by (simp add: Cons_nth_drop_Suc numeral_3_eq_3)
            from rd more False le data iac show ?thesis
              by (subst strip_loop.simps)
                 (auto simp: m d2 esc opt [simplified] prod.case_eq_if Let_def apsnd_def map_prod_def split: prod.splits
                   intro!: strip_postI_step [OF IH(6)] strip_postI_step [OF IH(7)]
                     strip_postI_step [OF IH(8)] strip_postI_step [OF IH(9)])
          qed
        qed
      qed
    qed
  qed
qed

section \<open>Consequences for a whole strip\<close>

lemma strip_iac_spec:
  assumes "strip_iac c buf = (c', out)"
  shows "frame_eq c c'" and "strip_spec (mode_of c) buf = (mode_of c', out)"
  using strip_loop_refines [of 0 0 buf c] assms
  by (auto simp: strip_iac_def strip_post_def split: prod.splits)

lemma strip_spec_shorter: "length (snd (strip_spec m bs)) \<le> length bs"
  by (induction m bs rule: strip_spec.induct) (auto split: list.splits intro: le_SucI)

lemma strip_iac_shorter: "strip_iac c buf = (c', out) \<Longrightarrow> length out \<le> length buf"
  using strip_iac_spec(2) [of c buf c' out] strip_spec_shorter [of "mode_of c" buf] by simp

lemma find_line_terminator_lt:
  "find_line_terminator bs = Some p \<Longrightarrow> p < length bs \<and> (bs ! p = LF \<or> bs ! p = CR)"
  by (induction bs arbitrary: p) (auto split: if_splits)

lemma find_line_terminator_None:
  "find_line_terminator bs = None \<longleftrightarrow> LF \<notin> set bs \<and> CR \<notin> set bs"
  by (induction bs) auto

lemma find_line_terminator_append:
  "LF \<notin> set xs \<Longrightarrow> CR \<notin> set xs \<Longrightarrow>
   find_line_terminator (xs @ ys) = map_option (\<lambda>p. length xs + p) (find_line_terminator ys)"
  by (cases "find_line_terminator ys"; induction xs) auto

lemma consume_terminator_bounds: "pos < consume_terminator buf pos \<and> consume_terminator buf pos \<le> pos + 2"
  by (simp add: consume_terminator_def)

section \<open>Decoding\<close>

text \<open>
  One call of \<open>decode\<close>. The recursive call is made once at most: it runs with
  \<open>discarding\<close> off.
\<close>

function decode :: "codec \<Rightarrow> bytes \<Rightarrow> (codec_error + codec_item option) \<times> codec \<times> bytes" where
  "decode c buf =
    (if max_buffer_size c < length buf then
       (Inl (BufferOverflow (max_buffer_size c)), c, buf)
     else
       case strip_iac c buf of (c1, buf1) \<Rightarrow>
         (case find_line_terminator buf1 of
            Some term_pos \<Rightarrow>
              let consume_len = consume_terminator buf1 term_pos in
              if discarding c1 then
                decode (c1\<lparr>discarding := False\<rparr>) (drop consume_len buf1)
              else
                (Inr (Some (Line (lossy_decode_with_warning (take term_pos buf1)))),
                 c1, drop consume_len buf1)
          | None \<Rightarrow>
              if discarding c1 then (Inr None, c1, [])
              else if max_line_length c1 < length buf1 then
                (Inr (Some LineTooLong), c1\<lparr>discarding := True\<rparr>, [])
              else (Inr None, c1, buf1)))"
  by pat_completeness auto
termination
  by (relation "measure (\<lambda>(c, buf). if discarding c then 1 else 0)")
     (auto simp: frame_eq_def dest!: strip_iac_spec(1) [OF sym])

declare decode.simps [simp del]

text \<open>\<open>decode_eof\<close>, with the trailing incomplete command cut off the last line.\<close>

definition decode_eof :: "codec \<Rightarrow> bytes \<Rightarrow> (codec_error + codec_item option) \<times> codec \<times> bytes" where
  "decode_eof c buf =
    (case decode c buf of
       (Inl e, c1, buf1) \<Rightarrow> (Inl e, c1, buf1)
     | (Inr (Some item), c1, buf1) \<Rightarrow> (Inr (Some item), c1, buf1)
     | (Inr None, c1, buf1) \<Rightarrow>
         if buf1 = [] \<or> discarding c1 then (Inr None, c1\<lparr>discarding := False\<rparr>, [])
         else if in_subnegotiation c1 \<or> (buf1 \<noteq> [] \<and> buf1 ! 0 = IAC) then
           (Inr None, c1\<lparr>in_subnegotiation := False, subneg_iac_pending := False\<rparr>, [])
         else
           let n = length buf1;
               end_pos =
                 (if 2 \<le> n \<and> buf1 ! (n - 2) = IAC \<and> is_negotiation (buf1 ! (n - 1)) then n - 2
                  else if 1 \<le> n \<and> buf1 ! (n - 1) = IAC then n - 1
                  else n)
           in if end_pos = 0 then (Inr None, c1, [])
              else (Inr (Some (Line (lossy_decode_with_warning (take end_pos buf1)))), c1, []))"

section \<open>The cases of a call\<close>

lemma strip_iac_discarding: "strip_iac c buf = (c1, b1) \<Longrightarrow> discarding c1 = discarding c"
  using strip_iac_spec(1) [of c buf c1 b1] by (simp add: frame_eq_def)

lemma strip_iac_limits:
  "strip_iac c buf = (c1, b1) \<Longrightarrow>
   max_line_length c1 = max_line_length c \<and> max_buffer_size c1 = max_buffer_size c"
  using strip_iac_spec(1) [of c buf c1 b1] by (simp add: frame_eq_def)

lemma decode_overflow:
  "max_buffer_size c < length buf \<Longrightarrow>
   decode c buf = (Inl (BufferOverflow (max_buffer_size c)), c, buf)"
  by (simp add: decode.simps [of c buf])

lemma decode_line:
  "\<not> max_buffer_size c < length buf \<Longrightarrow> strip_iac c buf = (c1, b1) \<Longrightarrow>
   find_line_terminator b1 = Some p \<Longrightarrow> \<not> discarding c \<Longrightarrow>
   decode c buf = (Inr (Some (Line (lossy_decode_with_warning (take p b1)))),
     c1, drop (consume_terminator b1 p) b1)"
  using strip_iac_discarding [of c buf c1 b1] by (simp add: decode.simps [of c buf] Let_def)

lemma decode_resume:
  "\<not> max_buffer_size c < length buf \<Longrightarrow> strip_iac c buf = (c1, b1) \<Longrightarrow>
   find_line_terminator b1 = Some p \<Longrightarrow> discarding c \<Longrightarrow>
   decode c buf = decode (c1\<lparr>discarding := False\<rparr>) (drop (consume_terminator b1 p) b1)"
  using strip_iac_discarding [of c buf c1 b1] by (simp add: decode.simps [of c buf] Let_def)

lemma decode_drop:
  "\<not> max_buffer_size c < length buf \<Longrightarrow> strip_iac c buf = (c1, b1) \<Longrightarrow>
   find_line_terminator b1 = None \<Longrightarrow> discarding c \<Longrightarrow> decode c buf = (Inr None, c1, [])"
  using strip_iac_discarding [of c buf c1 b1] by (simp add: decode.simps [of c buf])

lemma decode_too_long:
  "\<not> max_buffer_size c < length buf \<Longrightarrow> strip_iac c buf = (c1, b1) \<Longrightarrow>
   find_line_terminator b1 = None \<Longrightarrow> \<not> discarding c \<Longrightarrow> max_line_length c < length b1 \<Longrightarrow>
   decode c buf = (Inr (Some LineTooLong), c1\<lparr>discarding := True\<rparr>, [])"
  using strip_iac_discarding [of c buf c1 b1] strip_iac_limits [of c buf c1 b1]
  by (simp add: decode.simps [of c buf])

lemma decode_wait:
  "\<not> max_buffer_size c < length buf \<Longrightarrow> strip_iac c buf = (c1, b1) \<Longrightarrow>
   find_line_terminator b1 = None \<Longrightarrow> \<not> discarding c \<Longrightarrow> \<not> max_line_length c < length b1 \<Longrightarrow>
   decode c buf = (Inr None, c1, b1)"
  using strip_iac_discarding [of c buf c1 b1] strip_iac_limits [of c buf c1 b1]
  by (simp add: decode.simps [of c buf])

lemmas decode_eqs = decode_line decode_resume decode_drop decode_too_long decode_wait

lemma decodeE:
  obtains (overflow) "max_buffer_size c < length buf"
      "decode c buf = (Inl (BufferOverflow (max_buffer_size c)), c, buf)"
  | (resume) c1 b1 p where "length buf \<le> max_buffer_size c" "strip_iac c buf = (c1, b1)"
      "find_line_terminator b1 = Some p" "discarding c"
      "decode c buf = decode (c1\<lparr>discarding := False\<rparr>) (drop (consume_terminator b1 p) b1)"
  | (line) c1 b1 p where "length buf \<le> max_buffer_size c" "strip_iac c buf = (c1, b1)"
      "find_line_terminator b1 = Some p" "\<not> discarding c"
      "decode c buf = (Inr (Some (Line (lossy_decode_with_warning (take p b1)))),
        c1, drop (consume_terminator b1 p) b1)"
  | (silent) c1 b1 where "length buf \<le> max_buffer_size c" "strip_iac c buf = (c1, b1)"
      "find_line_terminator b1 = None" "discarding c" "decode c buf = (Inr None, c1, [])"
  | (too_long) c1 b1 where "length buf \<le> max_buffer_size c" "strip_iac c buf = (c1, b1)"
      "find_line_terminator b1 = None" "\<not> discarding c" "max_line_length c < length b1"
      "decode c buf = (Inr (Some LineTooLong), c1\<lparr>discarding := True\<rparr>, [])"
  | (wait) c1 b1 where "length buf \<le> max_buffer_size c" "strip_iac c buf = (c1, b1)"
      "find_line_terminator b1 = None" "\<not> discarding c" "length b1 \<le> max_line_length c"
      "decode c buf = (Inr None, c1, b1)"
proof -
  obtain c1 b1 where "strip_iac c buf = (c1, b1)"
    by (cases "strip_iac c buf")
  note strip = this
  show thesis
  proof (cases "max_buffer_size c < length buf")
    case True
    then show thesis by (rule overflow) (rule decode_overflow [OF True])
  next
    case False
    then have le: "length buf \<le> max_buffer_size c" by simp
    note eqs = decode_eqs [OF False strip]
    show thesis
    proof (cases "find_line_terminator b1")
      case None
      show thesis
      proof (cases "discarding c")
        case True
        show thesis by (rule silent [OF le strip None True eqs(3) [OF None True]])
      next
        case active: False
        show thesis
        proof (cases "max_line_length c < length b1")
          case True
          show thesis by (rule too_long [OF le strip None active True eqs(4) [OF None active True]])
        next
          case short: False
          then have "length b1 \<le> max_line_length c" by simp
          then show thesis by (rule wait [OF le strip None active _ eqs(5) [OF None active short]])
        qed
      qed
    next
      case (Some p)
      show thesis
        using resume [OF le strip Some _ eqs(2) [OF Some]] line [OF le strip Some _ eqs(1) [OF Some]]
        by (cases "discarding c") simp_all
    qed
  qed
qed

section \<open>What one call keeps and consumes\<close>

text \<open>
  A call made while discarding is at most one step away from one that is not, so a fact
  is proved for the latter first. The limits never change, and an item always costs at
  least one byte.
\<close>

lemma decode_limits_active:
  "\<not> discarding c \<Longrightarrow> decode c buf = (r, c', buf') \<Longrightarrow>
   max_line_length c' = max_line_length c \<and> max_buffer_size c' = max_buffer_size c"
  by (rule decodeE [of c buf]) (auto dest: strip_iac_limits)

lemma decode_limits:
  assumes "decode c buf = (r, c', buf')"
  shows "max_line_length c' = max_line_length c \<and> max_buffer_size c' = max_buffer_size c"
proof (cases "discarding c")
  case False
  then show ?thesis using assms by (rule decode_limits_active)
next
  case True
  with assms show ?thesis
    by (rule_tac decodeE [of c buf])
       (auto dest: strip_iac_limits dest!: decode_limits_active [rotated])
qed

lemma consumed_shorter:
  assumes "strip_iac c buf = (c1, b1)" "find_line_terminator b1 = Some p"
  shows "length (drop (consume_terminator b1 p) b1) < length buf"
  using strip_iac_shorter [OF assms(1)] find_line_terminator_lt [OF assms(2)]
    consume_terminator_bounds [of p b1]
  by auto

lemma decode_progress_active:
  "\<not> discarding c \<Longrightarrow> decode c buf = (Inr (Some item), c', buf') \<Longrightarrow> length buf' < length buf"
  by (rule decodeE [of c buf])
     (auto dest: consumed_shorter strip_iac_shorter simp del: length_drop)

lemma decode_progress:
  assumes "decode c buf = (Inr (Some item), c', buf')"
  shows "length buf' < length buf"
proof (cases "discarding c")
  case False
  then show ?thesis using assms by (rule decode_progress_active)
next
  case True
  with assms show ?thesis
    by (rule_tac decodeE [of c buf])
       (auto dest!: consumed_shorter decode_progress_active [rotated] simp del: length_drop)
qed

end
