(* ===== verification/CodecStream.thy ===== *)
theory CodecStream
  imports Codec
begin

text \<open>
  The codec over a whole input. A framed reader calls the decoder until it reports that no
  further item is ready, then appends the bytes of the next read: \<open>drain\<close> and
  \<open>feed\<close> are that driver, over any decoder, and the locale \<open>framed_decoder\<close>
  is what it needs from one (an item costs at least one byte). \<open>plain\<close> streams are
  those with no escaped \<open>IAC\<close> and no subnegotiation; on them the lines delivered do
  not depend on how the input was cut into reads, and are those of \<open>split_lines\<close>.
\<close>

section \<open>The driver\<close>

fun drain :: "('s \<Rightarrow> bytes \<Rightarrow> ('e + 'i option) \<times> 's \<times> bytes) \<Rightarrow> nat \<Rightarrow> 's \<Rightarrow> bytes
    \<Rightarrow> ('e + 'i) list \<times> 's \<times> bytes" where
  "drain dec 0 s buf = ([], s, buf)"
| "drain dec (Suc n) s buf =
    (case dec s buf of
       (Inl e, s', buf') \<Rightarrow> ([Inl e], s', buf')
     | (Inr None, s', buf') \<Rightarrow> ([], s', buf')
     | (Inr (Some i), s', buf') \<Rightarrow> apfst (Cons (Inr i)) (drain dec n s' buf'))"

definition drain_all :: "('s \<Rightarrow> bytes \<Rightarrow> ('e + 'i option) \<times> 's \<times> bytes) \<Rightarrow> 's \<Rightarrow> bytes
    \<Rightarrow> ('e + 'i) list \<times> 's \<times> bytes" where
  "drain_all dec s buf = drain dec (Suc (length buf)) s buf"

definition feed :: "codec \<Rightarrow> bytes \<Rightarrow> bytes \<Rightarrow> (codec_error + codec_item) list \<times> codec \<times> bytes" where
  "feed c buf chunk = drain_all decode c (buf @ chunk)"

locale framed_decoder =
  fixes dec :: "'s \<Rightarrow> bytes \<Rightarrow> ('e + 'i option) \<times> 's \<times> bytes"
  assumes progress: "dec s buf = (Inr (Some i), s', buf') \<Longrightarrow> length buf' < length buf"
begin

lemma drain_enough:
  "length buf < n \<Longrightarrow> drain dec n s buf = drain dec (Suc (length buf)) s buf"
proof (induction "length buf" arbitrary: s buf n rule: less_induct)
  case less
  then obtain k where n: "n = Suc k" by (cases n) auto
  show ?case
  proof (cases "dec s buf")
    case (fields r s' buf')
    show ?thesis
    proof (cases "\<exists>i. r = Inr (Some i)")
      case False
      then show ?thesis
        using fields n by (auto split: sum.splits option.splits)
    next
      case True
      then obtain i where r: "r = Inr (Some i)" by blast
      then have lt: "length buf' < length buf"
        using fields progress by blast
      have "drain dec k s' buf' = drain dec (Suc (length buf')) s' buf'"
        using less.hyps [OF lt, of k s'] less.prems n lt by simp
      moreover have "drain dec (length buf) s' buf' = drain dec (Suc (length buf')) s' buf'"
        using less.hyps [OF lt, of "length buf" s'] lt by simp
      ultimately show ?thesis
        using fields r n by simp
    qed
  qed
qed

lemma drain_all_unfold:
  "drain_all dec s buf =
    (case dec s buf of
       (Inl e, s', buf') \<Rightarrow> ([Inl e], s', buf')
     | (Inr None, s', buf') \<Rightarrow> ([], s', buf')
     | (Inr (Some i), s', buf') \<Rightarrow> apfst (Cons (Inr i)) (drain_all dec s' buf'))"
proof (cases "dec s buf")
  case (fields r s' buf')
  have "drain dec (length buf) s' buf' = drain dec (Suc (length buf')) s' buf'" if "r = Inr (Some i)" for i
    using fields that progress [of s buf i s' buf'] drain_enough [of buf' "length buf" s'] by simp
  then show ?thesis
    using fields by (auto simp: drain_all_def split: sum.splits option.splits)
qed

lemma drain_all_cases:
  assumes "drain_all dec s buf = (items, s', buf')"
  obtains (failed) e where "dec s buf = (Inl e, s', buf')" "items = [Inl e]"
  | (idle) "dec s buf = (Inr None, s', buf')" "items = []"
  | (item) i s1 b1 rest where "dec s buf = (Inr (Some i), s1, b1)" "items = Inr i # rest"
      "drain_all dec s1 b1 = (rest, s', buf')" "length b1 < length buf"
proof (cases "dec s buf")
  case (fields r s1 b1)
  then show thesis
    using assms that progress [of s buf _ s1 b1]
    by (subst (asm) drain_all_unfold)
       (auto simp: apfst_def map_prod_def split: prod.splits sum.splits option.splits)
qed

text \<open>The driver stops only where the decoder has nothing more to give, or at its error.\<close>

lemma drain_all_stops:
  "drain_all dec s buf = (items, s', buf') \<Longrightarrow>
   (\<exists>t b. dec t b = (Inr None, s', buf')) \<or>
   (\<exists>t b e. dec t b = (Inl e, s', buf') \<and> items \<noteq> [] \<and> last items = Inl e)"
proof (induction "length buf" arbitrary: s buf items rule: less_induct)
  case less
  from less.prems show ?case
    by (cases rule: drain_all_cases) (use less.hyps in \<open>(blast | fastforce)+\<close>)
qed

lemma drain_all_length:
  "drain_all dec s buf = (items, s', buf') \<Longrightarrow> length items \<le> Suc (length buf)"
proof (induction "length buf" arbitrary: s buf items rule: less_induct)
  case less
  from less.prems show ?case
    by (cases rule: drain_all_cases) (use less.hyps in fastforce)+
qed

end

interpretation telnet: framed_decoder decode
  by unfold_locales (rule decode_progress)

section \<open>Plain streams\<close>

text \<open>
  \<open>data_of\<close> is the abstract reading of a byte sequence that starts outside a
  subnegotiation. A settled buffer is one that a further strip leaves alone.
\<close>

definition data_of :: "bytes \<Rightarrow> bytes" where
  "data_of bs = snd (strip_spec Data bs)"

fun plain :: "bytes \<Rightarrow> bool" where
  "plain [] = True"
| "plain [b] = True"
| "plain (b # cmd # bs) =
    (if b \<noteq> IAC then plain (cmd # bs)
     else if cmd = IAC \<or> cmd = SB then False
     else if is_negotiation cmd then (case bs of [] \<Rightarrow> True | opt # rest \<Rightarrow> plain rest)
     else plain bs)"

definition settled :: "bytes \<Rightarrow> bool" where
  "settled bs = (strip_spec Data bs = (Data, bs))"

lemma strip_spec_Cons [simp]:
  "b \<noteq> IAC \<Longrightarrow> strip_spec Data (b # bs) = apsnd (Cons b) (strip_spec Data bs)"
  by (cases bs) simp_all

lemma strip_spec_append [simp]:
  "IAC \<notin> set xs \<Longrightarrow> strip_spec Data (xs @ ys) = apsnd (append xs) (strip_spec Data ys)"
  by (induction xs) (auto simp: apsnd_def map_prod_def split: prod.splits)

lemma strip_spec_IAC_free [simp]: "IAC \<notin> set xs \<Longrightarrow> strip_spec Data xs = (Data, xs)"
  using strip_spec_append [of xs "[]"] by simp

lemma plain_Cons [simp]: "b \<noteq> IAC \<Longrightarrow> plain (b # bs) = plain bs"
  by (cases bs) simp_all

lemma plain_append [simp]: "IAC \<notin> set xs \<Longrightarrow> plain (xs @ ys) = plain ys"
  by (induction xs) auto

lemma plain_IAC_free [simp]: "IAC \<notin> set xs \<Longrightarrow> plain xs"
  using plain_append [of xs "[]"] by simp

lemma settled_append [simp]: "IAC \<notin> set xs \<Longrightarrow> settled (xs @ ys) = settled ys"
  by (auto simp: settled_def apsnd_def map_prod_def split: prod.splits)

text \<open>Stripping a prefix first changes nothing on a plain stream.\<close>

lemma plain_strip_append:
  "plain (xs @ ys) \<Longrightarrow>
   fst (strip_spec Data xs) = Data \<and> plain (data_of xs @ ys) \<and>
   strip_spec Data (data_of xs @ ys) = strip_spec Data (xs @ ys)"
proof (induction xs rule: plain.induct)
  case (3 b cmd bs)
  then show ?case
    by (cases "b = IAC"; cases "is_negotiation cmd"; cases bs)
       (simp_all add: data_of_def split: if_splits)
qed (auto simp: data_of_def)

lemma plain_data_settled: "plain xs \<Longrightarrow> settled (data_of xs) \<and> fst (strip_spec Data xs) = Data"
  using plain_strip_append [of xs "[]"] by (simp add: settled_def data_of_def prod_eq_iff)

text \<open>
  A settled buffer is data followed by nothing, a lone \<open>IAC\<close>, or an \<open>IAC\<close> and a
  negotiation command still without its option.
\<close>

lemma settled_shape:
  "settled bs \<Longrightarrow>
   \<exists>d t. bs = d @ t \<and> IAC \<notin> set d \<and> (t = [] \<or> t = [IAC] \<or> (\<exists>n. is_negotiation n \<and> t = [IAC, n]))"
proof (induction bs)
  case (Cons b bs)
  show ?case
  proof (cases "b = IAC")
    case False
    with Cons.prems have "settled bs"
      by (auto simp: settled_def apsnd_def map_prod_def split: prod.splits)
    with Cons.IH False show ?thesis
      by (metis append_Cons set_ConsD)
  next
    case iac: True
    show ?thesis
    proof (cases bs)
      case Nil
      with iac show ?thesis by (rule_tac exI [of _ "[]"]) simp
    next
      case (Cons cmd rest)
      have "is_negotiation cmd \<and> rest = []"
      proof (rule ccontr)
        assume "\<not> (is_negotiation cmd \<and> rest = [])"
        then have "length (data_of (b # bs)) < length (b # bs)"
          using iac Cons strip_spec_shorter [of Data rest] strip_spec_shorter [of Subneg rest]
            strip_spec_shorter [of Data "tl rest"]
          by (auto simp: data_of_def split: list.splits)
        with Cons.prems show False
          by (simp add: settled_def data_of_def)
      qed
      with iac Cons show ?thesis by (rule_tac exI [of _ "[]"]) simp
    qed
  qed
qed auto

lemma negotiation_bytes:
  "is_negotiation n \<Longrightarrow> n \<noteq> IAC \<and> n \<noteq> SB \<and> n \<noteq> LF \<and> n \<noteq> CR"
  by (auto simp: is_negotiation_def byte_defs)

lemma no_terminator_tail:
  "t = [] \<or> t = [IAC] \<or> (\<exists>n. is_negotiation n \<and> t = [IAC, n]) \<Longrightarrow> find_line_terminator t = None"
  by (auto simp: is_negotiation_def byte_defs)

section \<open>Splitting into lines\<close>

text \<open>The complete lines of a text, without their terminators, and what follows the last.\<close>

function split_lines :: "bytes \<Rightarrow> bytes list \<times> bytes" where
  "split_lines bs =
    (case find_line_terminator bs of
       None \<Rightarrow> ([], bs)
     | Some p \<Rightarrow> apfst (Cons (take p bs)) (split_lines (drop (consume_terminator bs p) bs)))"
  by pat_completeness auto
termination
proof (relation "measure length")
  fix bs p
  assume "find_line_terminator bs = Some p"
  then show "(drop (consume_terminator bs p) bs, bs) \<in> measure length"
    using find_line_terminator_lt [of bs p] consume_terminator_bounds [of p bs] by auto
qed simp

declare split_lines.simps [simp del]

lemma split_lines_None: "find_line_terminator bs = None \<Longrightarrow> split_lines bs = ([], bs)"
  by (simp add: split_lines.simps [of bs])

lemma split_lines_Some:
  "find_line_terminator bs = Some p \<Longrightarrow>
   split_lines bs = apfst (Cons (take p bs)) (split_lines (drop (consume_terminator bs p) bs))"
  by (simp add: split_lines.simps [of bs])

lemma split_lines_rest: "split_lines bs = (ls, r) \<Longrightarrow> find_line_terminator r = None"
proof (induction bs arbitrary: ls rule: split_lines.induct)
  case (1 bs)
  then show ?case
    by (cases "find_line_terminator bs")
       (auto simp: split_lines_None split_lines_Some apfst_def map_prod_def split: prod.splits)
qed

lemma find_line_terminator_prefix:
  "find_line_terminator xs = Some p \<Longrightarrow> find_line_terminator (xs @ ys) = Some p"
  by (induction xs arbitrary: p) (auto split: if_splits)

definition ends_in :: "u8 \<Rightarrow> bytes \<Rightarrow> bool" where
  "ends_in b bs = (bs \<noteq> [] \<and> last bs = b)"

definition starts_with :: "u8 \<Rightarrow> bytes \<Rightarrow> bool" where
  "starts_with b bs = (bs \<noteq> [] \<and> hd bs = b)"

text \<open>Splitting is compositional, unless a cut falls inside a CRLF pair.\<close>

lemma consume_terminator_append:
  assumes "p < length xs" and "\<not> (ends_in CR xs \<and> starts_with LF ys)"
  shows "consume_terminator (xs @ ys) p = consume_terminator xs p"
proof (cases "p + 1 = length xs")
  case True
  then have "xs \<noteq> []" and "p = length xs - 1"
    by auto
  then have "xs \<noteq> []" and "last xs = xs ! p"
    by (simp_all add: last_conv_nth)
  with True assms show ?thesis
    by (cases ys) (auto simp: consume_terminator_def nth_append ends_in_def starts_with_def)
next
  case False
  with assms(1) show ?thesis
    by (simp add: consume_terminator_def nth_append)
qed

lemma consume_terminator_le: "p < length xs \<Longrightarrow> consume_terminator xs p \<le> length xs"
  by (auto simp: consume_terminator_def)

lemma split_lines_append:
  assumes "\<not> (ends_in CR xs \<and> starts_with LF ys)"
    and "split_lines xs = (l1, r1)" and "split_lines (r1 @ ys) = (l2, r2)"
  shows "split_lines (xs @ ys) = (l1 @ l2, r2)"
  using assms
proof (induction xs arbitrary: l1 rule: split_lines.induct)
  case (1 xs)
  show ?case
  proof (cases "find_line_terminator xs")
    case None
    with "1.prems" show ?thesis by (simp add: split_lines_None)
  next
    case (Some p)
    let ?n = "consume_terminator xs p"
    have p: "p < length xs"
      using find_line_terminator_lt [OF Some] by simp
    have n: "consume_terminator (xs @ ys) p = ?n"
      using p "1.prems"(1) by (rule consume_terminator_append)
    have le: "?n \<le> length xs"
      using p by (rule consume_terminator_le)
    obtain k1 where k1: "split_lines (drop ?n xs) = (k1, r1)" "l1 = take p xs # k1"
      using "1.prems"(2) Some
      by (auto simp: split_lines_Some apfst_def map_prod_def split: prod.splits)
    have "\<not> (ends_in CR (drop ?n xs) \<and> starts_with LF ys)"
      using "1.prems"(1) by (auto simp: ends_in_def)
    then have "split_lines (drop ?n xs @ ys) = (k1 @ l2, r2)"
      using "1.IH" [OF Some _ k1(1) "1.prems"(3)] by simp
    then show ?thesis
      using find_line_terminator_prefix [OF Some, of ys] n le p k1(2)
      by (simp add: split_lines_Some)
  qed
qed

section \<open>The decoder delivers the lines of a plain buffer\<close>

definition idle :: "codec \<Rightarrow> bool" where
  "idle c = (\<not> discarding c \<and> mode_of c = Data)"

text \<open>Two codecs that a caller cannot tell apart: the same limits, discard flag and mode.\<close>

definition same_view :: "codec \<Rightarrow> codec \<Rightarrow> bool" where
  "same_view c c' = (frame_eq c c' \<and> mode_of c' = mode_of c)"

lemma same_view_refl [simp]: "same_view c c"
  by (simp add: same_view_def)

lemma same_view_trans: "same_view a b \<Longrightarrow> same_view b c \<Longrightarrow> same_view a c"
  by (auto simp: same_view_def intro: frame_eq_trans)

lemma same_view_idle: "same_view c c' \<Longrightarrow> idle c' = idle c"
  by (auto simp: same_view_def idle_def frame_eq_def)

lemma same_view_limits:
  "same_view c c' \<Longrightarrow> max_line_length c' = max_line_length c \<and> max_buffer_size c' = max_buffer_size c"
  by (simp add: same_view_def frame_eq_def)

lemma strip_iac_plain:
  assumes "idle c" "plain buf" "strip_iac c buf = (c1, b1)"
  shows "b1 = data_of buf" and "same_view c c1" and "settled b1"
proof -
  have "strip_spec Data buf = (mode_of c1, b1)" "frame_eq c c1"
    using strip_iac_spec [OF assms(3)] assms(1) by (simp_all add: idle_def)
  then show "b1 = data_of buf" "same_view c c1" "settled b1"
    using plain_data_settled [OF assms(2)] assms(1) by (auto simp: data_of_def same_view_def idle_def)
qed

text \<open>After a line is taken from a settled buffer, the rest is settled, hence plain.\<close>

lemma settled_plain: "settled bs \<Longrightarrow> plain bs"
  using settled_shape [of bs] by (auto dest: negotiation_bytes)

lemma settled_data: "settled bs \<Longrightarrow> data_of bs = bs"
  by (simp add: settled_def data_of_def)

lemma settled_after_line:
  assumes "settled bs" "find_line_terminator bs = Some p"
  shows "settled (drop (consume_terminator bs p) bs)"
proof -
  obtain d t where bs: "bs = d @ t" and d: "IAC \<notin> set d"
    and t: "t = [] \<or> t = [IAC] \<or> (\<exists>n. is_negotiation n \<and> t = [IAC, n])"
    using settled_shape [OF assms(1)] by blast
  have tn: "find_line_terminator t = None"
    using t by (rule no_terminator_tail)
  have p: "p < length d"
  proof (rule ccontr)
    assume "\<not> p < length d"
    then have "bs ! p = t ! (p - length d)" and "p - length d < length t"
      using bs find_line_terminator_lt [OF assms(2)] by (auto simp: nth_append)
    then have "bs ! p \<in> set t"
      by simp
    moreover have "bs ! p = LF \<or> bs ! p = CR"
      using find_line_terminator_lt [OF assms(2)] by blast
    ultimately show False
      using tn by (auto simp: find_line_terminator_None)
  qed
  have "\<not> starts_with LF t"
    using tn by (cases t) (auto simp: starts_with_def)
  then have "consume_terminator bs p \<le> length d"
    using consume_terminator_append [OF p, of t] consume_terminator_le [OF p] bs by simp
  then have "drop (consume_terminator bs p) bs = drop (consume_terminator bs p) d @ t"
    by (simp add: bs)
  moreover have "settled t"
    using assms(1) d by (simp add: bs)
  moreover have "IAC \<notin> set (drop (consume_terminator bs p) d)"
    using d by (auto dest: in_set_dropD)
  ultimately show ?thesis
    by simp
qed

abbreviation delivered :: "bytes list \<Rightarrow> (codec_error + codec_item) list" where
  "delivered ls \<equiv> map (\<lambda>l. Inr (Line (from_utf8_lossy l))) ls"

lemma drain_plain:
  "plain buf \<Longrightarrow> idle c \<Longrightarrow> length buf \<le> max_buffer_size c \<Longrightarrow>
   split_lines (data_of buf) = (ls, r) \<Longrightarrow> length r \<le> max_line_length c \<Longrightarrow>
   \<exists>c'. drain_all decode c buf = (delivered ls, c', r) \<and> same_view c c'"
proof (induction "length buf" arbitrary: buf c ls rule: less_induct)
  case less
  obtain c1 b1 where s: "strip_iac c buf = (c1, b1)"
    by (cases "strip_iac c buf")
  note b1 = strip_iac_plain [OF less.prems(2,1) s]
  have fits: "\<not> max_buffer_size c < length buf" and act: "\<not> discarding c"
    using less.prems by (simp_all add: idle_def)
  show ?case
  proof (cases "find_line_terminator b1")
    case None
    then have "ls = []" "r = b1"
      using less.prems(4) b1(1) by (simp_all add: split_lines_None)
    then have "decode c buf = (Inr None, c1, r)"
      using decode_wait [OF fits s None act] less.prems(5) by simp
    then show ?thesis
      using \<open>ls = []\<close> b1(2) by (simp add: telnet.drain_all_unfold [of c buf])
  next
    case (Some p)
    let ?rest = "drop (consume_terminator b1 p) b1"
    note st = settled_after_line [OF b1(3) Some]
    obtain k where k: "split_lines ?rest = (k, r)" "ls = take p b1 # k"
      using less.prems(4) Some b1(1)
      by (auto simp: split_lines_Some apfst_def map_prod_def split: prod.splits)
    have lt: "length ?rest < length buf"
      by (rule consumed_shorter [OF s Some])
    have "\<exists>c'. drain_all decode c1 ?rest = (delivered k, c', r) \<and> same_view c1 c'"
      using less.hyps [OF lt settled_plain [OF st], of c1 k] less.prems lt b1(2) k(1) st
      by (simp add: same_view_idle same_view_limits settled_data del: length_drop)
    then show ?thesis
      using decode_line [OF fits s Some act] b1(2) k(2)
      by (auto simp: telnet.drain_all_unfold [of c buf] lossy_decode_with_warning_def
          intro: same_view_trans)
  qed
qed

lemma feed_plain:
  assumes "plain (buf @ chunk)" "idle c" "length (buf @ chunk) \<le> max_buffer_size c"
    and "split_lines (data_of (buf @ chunk)) = (ls, r)" "length r \<le> max_line_length c"
  obtains c' where "feed c buf chunk = (delivered ls, c', r)" "same_view c c'"
  using drain_plain [OF assms] that by (auto simp: feed_def)

lemma set_split_rest: "set (snd (split_lines bs)) \<subseteq> set bs"
proof (induction bs rule: split_lines.induct)
  case (1 bs)
  then show ?case
    by (cases "find_line_terminator bs")
       (auto simp: split_lines_None split_lines_Some dest!: in_set_dropD)
qed

lemma length_split_rest: "length (snd (split_lines bs)) \<le> length bs"
proof (induction bs rule: split_lines.induct)
  case (1 bs)
  then show ?case
    by (cases "find_line_terminator bs")
       (auto simp: split_lines_None split_lines_Some intro: le_trans)
qed

lemma length_data_of: "length (data_of bs) \<le> length bs"
  unfolding data_of_def by (rule strip_spec_shorter)

section \<open>Cutting the input\<close>

text \<open>
  The cut between two reads falls inside a line ending when the data before it ends in CR
  and the data after it begins with LF. An incomplete command at the end of the first read
  belongs to what comes after.
\<close>

definition cut_inside_crlf :: "bytes \<Rightarrow> bytes \<Rightarrow> bool" where
  "cut_inside_crlf xs ys =
    (let d = takeWhile (\<lambda>b. b \<noteq> IAC) (data_of xs); t = dropWhile (\<lambda>b. b \<noteq> IAC) (data_of xs)
     in ends_in CR d \<and> starts_with LF (data_of (t @ ys)))"

text \<open>How the data of a plain stream, its lines and its remainder split at a cut.\<close>

lemma cut_plain:
  assumes "plain (xs @ ys)" and "\<not> cut_inside_crlf xs ys"
    and "split_lines (data_of xs) = (l1, r1)" and "split_lines (data_of (r1 @ ys)) = (l2, r2)"
  shows "split_lines (data_of (xs @ ys)) = (l1 @ l2, r2)" and "plain (r1 @ ys)"
proof -
  define d t where "d = takeWhile (\<lambda>b. b \<noteq> IAC) (data_of xs)"
    and "t = dropWhile (\<lambda>b. b \<noteq> IAC) (data_of xs)"
  have dt: "data_of xs = d @ t"
    by (simp add: d_def t_def)
  have d: "IAC \<notin> set d"
    by (auto simp: d_def dest: set_takeWhileD)
  note app = plain_strip_append [OF assms(1)]
  have "plain xs"
    using assms(1) by (induction xs rule: plain.induct) (auto split: if_splits list.splits)
  then have "settled (d @ t)"
    using plain_data_settled dt by metis
  then have st: "settled t"
    using d by simp
  have "t = [] \<or> hd t = IAC"
    using hd_dropWhile [of "\<lambda>b. b \<noteq> IAC" "data_of xs"] by (auto simp: t_def)
  with settled_shape [OF st] have "t = [] \<or> t = [IAC] \<or> (\<exists>n. is_negotiation n \<and> t = [IAC, n])"
    by (metis append_Nil hd_append2 hd_in_set)
  then have tn: "find_line_terminator t = None"
    by (rule no_terminator_tail)
  then have lf: "\<not> starts_with LF t"
    by (cases t) (auto simp: starts_with_def)
  obtain k r where kr: "split_lines d = (k, r)"
    by (cases "split_lines d")
  have r: "IAC \<notin> set r"
    using set_split_rest [of d] kr d by auto
  have "find_line_terminator (r @ t) = None"
    using split_lines_rest [OF kr] tn by (simp add: find_line_terminator_None)
  then have "split_lines (d @ t) = (k @ [], r @ t)"
    using lf kr by (intro split_lines_append [of d t k r]) (simp_all add: split_lines_None)
  then have l1: "l1 = k" "r1 = r @ t"
    using assms(3) dt by simp_all
  have data2: "data_of (r1 @ ys) = r @ data_of (t @ ys)"
    using r by (simp add: l1 data_of_def)
  have "data_of (xs @ ys) = data_of ((d @ t) @ ys)"
    using app dt by (simp add: data_of_def)
  also have "\<dots> = d @ data_of (t @ ys)"
    using d by (simp add: data_of_def)
  finally have "data_of (xs @ ys) = d @ data_of (t @ ys)" .
  moreover have "split_lines (d @ data_of (t @ ys)) = (k @ l2, r2)"
    using assms(2,4) kr data2
    by (intro split_lines_append [of d _ k r]) (simp_all add: cut_inside_crlf_def d_def t_def)
  ultimately show "split_lines (data_of (xs @ ys)) = (l1 @ l2, r2)"
    by (simp add: l1)
  show "plain (r1 @ ys)"
    using app dt d r by (simp add: l1)
qed

section \<open>Lines of text\<close>

lemma find_line_terminator_clean:
  "find_line_terminator bs = Some p \<Longrightarrow> LF \<notin> set (take p bs) \<and> CR \<notin> set (take p bs)"
  by (induction bs arbitrary: p) (auto split: if_splits)

lemma split_lines_crlf:
  assumes "LF \<notin> set l" "CR \<notin> set l"
  shows "split_lines (l @ CR # LF # zs) = apfst (Cons l) (split_lines zs)"
proof -
  have "find_line_terminator (l @ CR # LF # zs) = Some (length l)"
    using assms by (simp add: find_line_terminator_append)
  then show ?thesis
    by (simp add: split_lines_Some consume_terminator_def nth_append)
qed

lemma split_lines_lf:
  assumes "LF \<notin> set l" "CR \<notin> set l"
  shows "split_lines (l @ LF # zs) = apfst (Cons l) (split_lines zs)"
proof -
  have "find_line_terminator (l @ LF # zs) = Some (length l)"
    using assms by (simp add: find_line_terminator_append)
  then show ?thesis
    by (simp add: split_lines_Some consume_terminator_def nth_append byte_defs)
qed

lemma split_lines_concat_crlf:
  "\<forall>l \<in> set ls. LF \<notin> set l \<and> CR \<notin> set l \<Longrightarrow>
   split_lines (concat (map (\<lambda>l. l @ [CR, LF]) ls)) = (ls, [])"
  by (induction ls) (auto simp: split_lines_crlf split_lines_None)

lemma IAC_not_in_encode [simp]: "IAC \<notin> set (encode s)"
  using encode_no_FF [of s] by (simp add: IAC_def)

lemma IAC_CR_LF: "IAC \<noteq> CR" "IAC \<noteq> LF"
  by (simp_all add: byte_defs)

lemma terminators_not_in_encode:
  "10 \<notin> set s \<Longrightarrow> LF \<notin> set (encode s)" "13 \<notin> set s \<Longrightarrow> CR \<notin> set (encode s)"
  using encode_ascii_mem [of LF s] encode_ascii_mem [of CR s] by (auto simp: LF_def CR_def)

lemma no_terminators_in_text:
  assumes "LF \<notin> set bs" "CR \<notin> set bs"
  shows "10 \<notin> set (from_utf8_lossy bs) \<and> 13 \<notin> set (from_utf8_lossy bs)"
proof -
  have b: "b = LF" if "unat b = 10" for b :: u8
    using that by (simp add: LF_def word_unat_eq_iff)
  moreover have "b = CR" if "unat b = 13" for b :: u8
    using that by (simp add: CR_def word_unat_eq_iff)
  ultimately show ?thesis
    using assms from_utf8_lossy_ascii [of 10 bs] from_utf8_lossy_ascii [of 13 bs] by fastforce
qed

section \<open>What a call may return\<close>

definition decode_post :: "codec \<Rightarrow> bytes \<Rightarrow> (codec_error + codec_item option) \<times> codec \<times> bytes \<Rightarrow> bool" where
  "decode_post c buf r =
    (case r of
       (Inl e, c', buf') \<Rightarrow> e = BufferOverflow (max_buffer_size c) \<and> max_buffer_size c < length buf
     | (Inr None, c', buf') \<Rightarrow> length buf' \<le> max_line_length c
     | (Inr (Some LineTooLong), c', buf') \<Rightarrow> discarding c' \<and> buf' = []
     | (Inr (Some (Line l)), c', buf') \<Rightarrow>
         length l \<le> max_buffer_size c \<and> 10 \<notin> set l \<and> 13 \<notin> set l \<and> valid_str l)"

lemma line_text_bounds:
  assumes "length buf \<le> max_buffer_size c" "strip_iac c buf = (c1, b1)" "find_line_terminator b1 = Some p"
  shows "length (lossy_decode_with_warning (take p b1)) \<le> max_buffer_size c \<and>
    10 \<notin> set (lossy_decode_with_warning (take p b1)) \<and>
    13 \<notin> set (lossy_decode_with_warning (take p b1)) \<and>
    valid_str (lossy_decode_with_warning (take p b1))"
  using assms(1) strip_iac_shorter [OF assms(2)] length_from_utf8_lossy [of "take p b1"]
    no_terminators_in_text find_line_terminator_clean [OF assms(3)]
  by (auto simp: lossy_decode_with_warning_def)

lemma decode_post_active: "\<not> discarding c \<Longrightarrow> decode_post c buf (decode c buf)"
  by (rule decodeE [of c buf])
     (simp_all add: decode_post_def line_text_bounds)

lemma decode_post_any: "decode_post c buf (decode c buf)"
proof (cases "discarding c")
  case False
  then show ?thesis by (rule decode_post_active)
next
  case True
  show ?thesis
  proof (rule decodeE [of c buf])
    fix c1 b1 p
    let ?rest = "drop (consume_terminator b1 p) b1"
    assume d: "decode c buf = decode (c1\<lparr>discarding := False\<rparr>) ?rest"
      and s: "strip_iac c buf = (c1, b1)" "find_line_terminator b1 = Some p" "length buf \<le> max_buffer_size c"
    have "decode_post (c1\<lparr>discarding := False\<rparr>) ?rest (decode (c1\<lparr>discarding := False\<rparr>) ?rest)"
      by (rule decode_post_active) simp
    then show ?thesis
      using d strip_iac_limits [OF s(1)] consumed_shorter [OF s(1,2)] s(3)
      by (auto simp: decode_post_def split: prod.splits sum.splits option.splits codec_item.splits)
  qed (use True in \<open>auto simp: decode_post_def\<close>)
qed

section \<open>Text with no commands, overlong lines and the end of the input\<close>

lemma data_of_IAC_free [simp]: "IAC \<notin> set bs \<Longrightarrow> data_of bs = bs"
  by (simp add: data_of_def)

lemma feed_text:
  assumes "IAC \<notin> set (buf @ chunk)" "idle c" "length (buf @ chunk) \<le> max_buffer_size c"
    and "split_lines (buf @ chunk) = (ls, r)" "length r \<le> max_line_length c"
  shows "\<exists>c'. feed c buf chunk = (delivered ls, c', r) \<and> same_view c c'"
  using feed_plain [of buf chunk c ls r] assms by (metis data_of_IAC_free plain_IAC_free)

lemma strip_iac_text:
  assumes "mode_of c = Data" "IAC \<notin> set buf" "strip_iac c buf = (c1, b1)"
  shows "b1 = buf" and "same_view c c1"
  using strip_iac_spec [OF assms(3)] assms(1,2) by (simp_all add: same_view_def)

lemma mode_of_discarding [simp]: "mode_of (c\<lparr>discarding := d\<rparr>) = mode_of c"
  by (simp add: mode_of_def)

lemma clean_None: "LF \<notin> set bs \<Longrightarrow> CR \<notin> set bs \<Longrightarrow> find_line_terminator bs = None"
  by (simp add: find_line_terminator_None)

text \<open>Lines of valid text, each ended by CRLF, come out as they went in.\<close>

lemma feed_lines:
  assumes "idle c" and "\<forall>l \<in> set ls. valid_str l \<and> 10 \<notin> set l \<and> 13 \<notin> set l"
    and "length (concat (map (\<lambda>l. encode l @ [CR, LF]) ls)) \<le> max_buffer_size c"
  shows "\<exists>c'. feed c [] (concat (map (\<lambda>l. encode l @ [CR, LF]) ls)) =
    (map (\<lambda>l. Inr (Line l)) ls, c', []) \<and> same_view c c'"
proof -
  let ?in = "concat (map (\<lambda>l. l @ [CR, LF]) (map encode ls))"
  have in_eq: "concat (map (\<lambda>l. encode l @ [CR, LF]) ls) = ?in"
    by (simp add: comp_def)
  have iac: "IAC \<notin> set ?in"
    using IAC_not_in_encode by (auto simp: IAC_CR_LF)
  have "split_lines ?in = (map encode ls, [])"
    using assms(2) by (intro split_lines_concat_crlf) (auto simp: terminators_not_in_encode)
  moreover have "delivered (map encode ls) = map (\<lambda>l. Inr (Line l)) ls"
    using assms(2) by (simp add: from_utf8_lossy_encode)
  ultimately show ?thesis
    using feed_plain [of "[]" ?in c "map encode ls" "[]"] assms(1,3) iac
    unfolding in_eq by (fastforce simp: data_of_def)
qed

text \<open>A buffer with no line ending that is over the line limit is thrown away.\<close>

lemma feed_too_long:
  assumes "idle c" "IAC \<notin> set bs" "LF \<notin> set bs" "CR \<notin> set bs"
    and "max_line_length c < length bs" "length bs \<le> max_buffer_size c"
  shows "\<exists>c'. feed c [] bs = ([Inr LineTooLong], c'\<lparr>discarding := True\<rparr>, []) \<and> same_view c c'"
proof -
  obtain c1 b1 where s: "strip_iac c bs = (c1, b1)"
    by (cases "strip_iac c bs")
  note b1 = strip_iac_text [OF _ assms(2) s]
  have "decode c bs = (Inr (Some LineTooLong), c1\<lparr>discarding := True\<rparr>, [])"
    using decode_too_long [OF _ s] b1 assms by (simp add: idle_def clean_None)
  moreover have e: "strip_iac d [] = (d, [])" for d
    by (simp add: strip_iac_def strip_loop.simps)
  have "decode (c1\<lparr>discarding := True\<rparr>) [] = (Inr None, c1\<lparr>discarding := True\<rparr>, [])"
    using decode_drop [OF _ e] by simp
  ultimately show ?thesis
    using b1 assms(1)
    by (auto simp: feed_def telnet.drain_all_unfold idle_def)
qed

text \<open>The next line ending, whatever comes before it, ends the discarding.\<close>

lemma decode_resumes_text:
  assumes "discarding c" "mode_of c = Data" "IAC \<notin> set buf" "length buf \<le> max_buffer_size c"
    and "find_line_terminator buf = Some p"
  shows "\<exists>c1. decode c buf = decode (c1\<lparr>discarding := False\<rparr>) (drop (consume_terminator buf p) buf) \<and>
    same_view c c1"
proof -
  obtain c1 b1 where s: "strip_iac c buf = (c1, b1)"
    by (cases "strip_iac c buf")
  show ?thesis
    using strip_iac_text [OF assms(2,3) s] decode_resume [OF _ s] assms by auto
qed

lemma drain_all_decode_eq:
  "decode c b = decode c' b' \<Longrightarrow> drain_all decode c b = drain_all decode c' b'"
  by (simp add: telnet.drain_all_unfold)

lemma feed_resumes:
  assumes "discarding c" "mode_of c = Data" "IAC \<notin> set (junk @ CR # LF # rest)"
    and "LF \<notin> set junk" "CR \<notin> set junk" "length (junk @ CR # LF # rest) \<le> max_buffer_size c"
    and "split_lines rest = (ls, r)" "length r \<le> max_line_length c"
  shows "\<exists>c'. feed c [] (junk @ CR # LF # rest) = (delivered ls, c', r) \<and>
    same_view (c\<lparr>discarding := False\<rparr>) c'"
proof -
  let ?b = "junk @ CR # LF # rest"
  have t: "find_line_terminator ?b = Some (length junk)"
    using assms(4,5) by (simp add: find_line_terminator_append)
  have n: "drop (consume_terminator ?b (length junk)) ?b = rest"
    by (simp add: consume_terminator_def nth_append)
  obtain c1 where c1: "decode c ?b = decode (c1\<lparr>discarding := False\<rparr>) rest" "same_view c c1"
    using decode_resumes_text [OF assms(1,2,3,6) t] n by auto
  then have v: "same_view (c\<lparr>discarding := False\<rparr>) (c1\<lparr>discarding := False\<rparr>)"
    "idle (c1\<lparr>discarding := False\<rparr>)" "length rest \<le> max_buffer_size c1" "length r \<le> max_line_length c1"
    using assms(2,6,8) by (auto simp: same_view_def frame_eq_def idle_def)
  obtain c2 where "feed (c1\<lparr>discarding := False\<rparr>) [] rest = (delivered ls, c2, r)"
    "same_view (c1\<lparr>discarding := False\<rparr>) c2"
    using feed_text [of "[]" rest "c1\<lparr>discarding := False\<rparr>" ls r] v assms(3,7) by auto
  then show ?thesis
    using drain_all_decode_eq [OF c1(1)] v(1) by (auto simp: feed_def intro: same_view_trans)
qed

lemma decode_waiting:
  assumes "idle c" "settled buf" "find_line_terminator buf = None"
    and "length buf \<le> max_line_length c" "length buf \<le> max_buffer_size c"
  shows "\<exists>c'. decode c buf = (Inr None, c', buf) \<and> same_view c c'"
proof -
  obtain c1 b1 where s: "strip_iac c buf = (c1, b1)"
    by (cases "strip_iac c buf")
  note b1 = strip_iac_plain [OF assms(1) settled_plain [OF assms(2)] s]
  show ?thesis
    using decode_wait [OF _ s] b1(1,2) settled_data [OF assms(2)] assms by (simp add: idle_def)
qed

text \<open>A whole subnegotiation is removed; its first half swallows what a later call is given.\<close>

lemma strip_spec_Subneg:
  "IAC \<notin> set xs \<Longrightarrow> strip_spec Subneg (xs @ ys) = strip_spec Subneg ys"
  by (induction xs) auto

lemma strip_spec_Subneg_free: "IAC \<notin> set xs \<Longrightarrow> strip_spec Subneg xs = (Subneg, [])"
  using strip_spec_Subneg [of xs "[]"] by simp

lemma command_bytes: "SB \<noteq> IAC" "SE \<noteq> IAC" "\<not> is_negotiation IAC" "\<not> is_negotiation SB"
  by (simp_all add: is_negotiation_def byte_defs)

text \<open>Where the last line ends, once an incomplete command after it is left out.\<close>

lemma decode_eof_waiting:
  assumes "decode c (d @ t) = (Inr None, c1, d @ t)" "\<not> discarding c1" "\<not> in_subnegotiation c1"
    and "IAC \<notin> set d" "t = [] \<or> t = [IAC] \<or> (\<exists>n. is_negotiation n \<and> t = [IAC, n])"
  shows "\<exists>c2. decode_eof c (d @ t) =
      (Inr (if d = [] then None else Some (Line (lossy_decode_with_warning d))), c2, []) \<and>
    discarding c2 = False \<and> in_subnegotiation c2 = False"
proof (cases "d = []")
  case True
  then show ?thesis
    using assms by (auto simp: decode_eof_def)
next
  case False
  then have d: "d ! 0 \<noteq> IAC" "d ! (length d - Suc 0) \<noteq> IAC"
    using assms(4) by (metis length_greater_0_conv nth_mem, metis diff_Suc_less length_greater_0_conv nth_mem)
  have d2: "d ! (length d - 2) \<noteq> IAC"
    using False assms(4) by (metis diff_less length_greater_0_conv nth_mem zero_less_numeral)
  have d0: "(d @ t) ! 0 \<noteq> IAC"
    using False d by (simp add: nth_append)
  from assms(5) consider "t = []" | "t = [IAC]" | n where "is_negotiation n" "t = [IAC, n]"
    by blast
  then show ?thesis
  proof cases
    case 1
    then show ?thesis
      using False d d2 d0 assms(1-3) by (simp add: decode_eof_def Let_def)
  next
    case 2
    then have "(d @ t) ! (length (d @ t) - 2) \<noteq> IAC"
      using False d by (simp add: nth_append)
    then show ?thesis
      using 2 False d0 assms(1-3) by (simp add: decode_eof_def Let_def nth_append)
  next
    case 3
    then show ?thesis
      using False d0 assms(1-3) by (simp add: decode_eof_def Let_def nth_append)
  qed
qed

text \<open>An escaped \<open>IAC\<close> and a subnegotiation, read at once.\<close>

lemma data_of_escaped:
  "IAC \<notin> set xs \<Longrightarrow> data_of (xs @ IAC # IAC # ys) = xs @ IAC # data_of ys"
  by (simp add: data_of_def)

lemma data_of_subneg:
  "IAC \<notin> set xs \<Longrightarrow> IAC \<notin> set p \<Longrightarrow> data_of (xs @ IAC # SB # p @ IAC # SE # ys) = xs @ data_of ys"
  by (simp add: data_of_def command_bytes strip_spec_Subneg)

lemma strip_iac_idle:
  "idle c \<Longrightarrow> strip_iac c buf = (c1, b1) \<Longrightarrow> b1 = data_of buf \<and> frame_eq c c1 \<and>
    mode_of c1 = fst (strip_spec Data buf)"
  using strip_iac_spec [of c buf c1 b1] by (simp add: idle_def data_of_def)

text \<open>One read that leaves the codec waiting, and one that ends in a subnegotiation.\<close>

lemma feed_waiting:
  assumes "idle c" "fst (strip_spec Data bs) = Data" "find_line_terminator (data_of bs) = None"
    and "length bs \<le> max_line_length c" "length bs \<le> max_buffer_size c"
  shows "\<exists>c'. feed c [] bs = ([], c', data_of bs) \<and> same_view c c'"
proof -
  obtain c1 b1 where s: "strip_iac c bs = (c1, b1)"
    by (cases "strip_iac c bs")
  note f = strip_iac_idle [OF assms(1) s]
  have "length b1 \<le> max_line_length c"
    using strip_iac_shorter [OF s] assms(4) by simp
  then have "decode c bs = (Inr None, c1, b1)"
    using decode_wait [OF _ s] f assms by (simp add: idle_def)
  then show ?thesis
    using f assms(1,2) by (simp add: feed_def telnet.drain_all_unfold same_view_def idle_def)
qed

lemma decode_in_subneg:
  assumes "mode_of c = Subneg" "\<not> discarding c" "IAC \<notin> set buf" "length buf \<le> max_buffer_size c"
  shows "\<exists>c'. decode c buf = (Inr None, c', [])"
proof -
  obtain c1 b1 where s: "strip_iac c buf = (c1, b1)"
    by (cases "strip_iac c buf")
  have "b1 = []"
    using strip_iac_spec(2) [OF s] assms(1,3) by (simp add: strip_spec_Subneg_free)
  then show ?thesis
    using decode_wait [OF _ s] assms(2,4) by simp
qed

lemma feed_ending_in_subneg:
  assumes "idle c" "IAC \<notin> set (l @ LF # xs)" "LF \<notin> set l" "CR \<notin> set l"
    and "length (l @ LF # xs @ [IAC, SB]) \<le> max_buffer_size c"
  shows "\<exists>c'. feed c [] (l @ LF # xs @ [IAC, SB]) = ([Inr (Line (from_utf8_lossy l))], c', [])"
proof -
  let ?b = "l @ LF # xs @ [IAC, SB]"
  obtain c1 b1 where s: "strip_iac c ?b = (c1, b1)"
    by (cases "strip_iac c ?b")
  have sp: "strip_spec Data ?b = (Subneg, l @ LF # xs)"
    using assms(2) strip_spec_append [of "l @ LF # xs" "[IAC, SB]"] by (simp add: command_bytes)
  have f: "b1 = l @ LF # xs" "frame_eq c c1" "mode_of c1 = Subneg"
    using strip_iac_idle [OF assms(1) s] sp by (simp_all add: data_of_def)
  have t: "find_line_terminator b1 = Some (length l)"
    using assms(3,4) by (simp add: f(1) find_line_terminator_append)
  have rest: "drop (consume_terminator b1 (length l)) b1 = xs"
    by (simp add: f(1) consume_terminator_def nth_append byte_defs)
  have "decode c ?b = (Inr (Some (Line (from_utf8_lossy l))), c1, xs)"
    using decode_line [OF _ s t] assms(1,5) rest
    by (simp add: idle_def lossy_decode_with_warning_def f(1))
  moreover obtain c2 where "decode c1 xs = (Inr None, c2, [])"
    using decode_in_subneg [of c1 xs] f(2,3) assms(1,2,5) by (auto simp: frame_eq_def idle_def)
  ultimately show ?thesis
    by (simp add: feed_def telnet.drain_all_unfold)
qed

end
