(* ===== verification/Reading.thy ===== *)
theory Reading
  imports CodecStream
begin

text \<open>
  The framed reader over several reads. \<open>drains\<close> is its inner loop as a relation, one rule
  for each thing the decoder can answer and no bound on the rounds; it always ends and
  \<open>drain_all\<close> computes its end. \<open>feeds\<close> is a sequence of reads, and the lemmas say what it
  gives on text: the lines of the whole, and nothing while an overlong line is thrown away.
\<close>

section \<open>The reader's loop ends\<close>

inductive drains :: "('s \<Rightarrow> bytes \<Rightarrow> ('e + 'i option) \<times> 's \<times> bytes) \<Rightarrow> 's \<Rightarrow> bytes
    \<Rightarrow> ('e + 'i) list \<Rightarrow> 's \<Rightarrow> bytes \<Rightarrow> bool" for dec where
  waits: "dec s buf = (Inr None, s', buf') \<Longrightarrow> drains dec s buf [] s' buf'"
| fails: "dec s buf = (Inl e, s', buf') \<Longrightarrow> drains dec s buf [Inl e] s' buf'"
| gives: "dec s buf = (Inr (Some i), s1, buf1) \<Longrightarrow> drains dec s1 buf1 items s' buf' \<Longrightarrow>
    drains dec s buf (Inr i # items) s' buf'"

context framed_decoder
begin

lemma drains_iff: "drains dec s buf items s' buf' \<longleftrightarrow> drain_all dec s buf = (items, s', buf')"
proof
  show "drains dec s buf items s' buf' \<Longrightarrow> drain_all dec s buf = (items, s', buf')"
    by (induction rule: drains.induct) (simp_all add: drain_all_unfold)
  show "drain_all dec s buf = (items, s', buf') \<Longrightarrow> drains dec s buf items s' buf'"
  proof (induction "length buf" arbitrary: s buf items rule: less_induct)
    case less
    from less.prems show ?case
      by (cases rule: drain_all_cases) (auto intro: drains.intros less.hyps)
  qed
qed

lemma drains_unique: "\<exists>!r. drains dec s buf (fst r) (fst (snd r)) (snd (snd r))"
  by (intro ex1I [of _ "drain_all dec s buf"]) (auto simp: drains_iff)

end

text \<open>No call of the decoder lengthens the buffer.\<close>

lemma decode_no_longer_active:
  "\<not> discarding c \<Longrightarrow> decode c buf = (r, c', buf') \<Longrightarrow> length buf' \<le> length buf"
proof (rule decodeE [of c buf])
  fix c1 b1 p
  assume "decode c buf = (r, c', buf')" "strip_iac c buf = (c1, b1)"
    "decode c buf = (Inr (Some (Line (lossy_decode_with_warning (take p b1)))), c1, drop (consume_terminator b1 p) b1)"
  then show ?thesis
    using strip_iac_shorter [of c buf c1 b1] by auto
qed (auto dest: strip_iac_shorter)

lemma decode_no_longer:
  assumes "decode c buf = (r, c', buf')"
  shows "length buf' \<le> length buf"
proof (cases "discarding c")
  case True
  show ?thesis
  proof (rule decodeE [of c buf])
    fix c1 b1 p
    let ?rest = "drop (consume_terminator b1 p) b1"
    assume "decode c buf = decode (c1\<lparr>discarding := False\<rparr>) ?rest" and s: "strip_iac c buf = (c1, b1)"
    then have "length buf' \<le> length ?rest"
      using assms decode_no_longer_active [of "c1\<lparr>discarding := False\<rparr>" ?rest r c' buf']
      by (simp del: length_drop)
    then show ?thesis
      using strip_iac_shorter [OF s] by simp
  qed (use assms True in \<open>auto dest: strip_iac_shorter\<close>)
qed (use assms decode_no_longer_active in blast)

text \<open>Every item costs a byte.\<close>

lemma drains_consumes:
  "drains decode c buf items c' buf' \<Longrightarrow> length (filter is_ok items) + length buf' \<le> length buf"
  by (induction rule: drains.induct) (auto dest: decode_no_longer decode_progress)

section \<open>A sequence of reads\<close>

fun feeds :: "codec \<Rightarrow> bytes \<Rightarrow> bytes list \<Rightarrow> (codec_error + codec_item) list \<times> codec \<times> bytes" where
  "feeds c buf [] = ([], c, buf)"
| "feeds c buf (x # xs) =
    (case feed c buf x of
       (items, c1, buf1) \<Rightarrow> apfst (append items) (feeds c1 buf1 xs))"

text \<open>What waits for its line ending is a beginning of the next line.\<close>

lemma rest_begins_line:
  assumes "find_line_terminator r = None" "split_lines (r @ ys) = (ls, e)"
  shows "length r \<le> length (hd (ls @ [e]))"
proof (cases "find_line_terminator (r @ ys)")
  case None
  then show ?thesis
    using assms(2) by (simp add: split_lines_None) auto
next
  case (Some p)
  have "length r \<le> p"
  proof (rule ccontr)
    assume "\<not> length r \<le> p"
    then have "(r @ ys) ! p \<in> set r"
      by (simp add: nth_append)
    then show False
      using find_line_terminator_lt [OF Some] assms(1) by (auto simp: find_line_terminator_None)
  qed
  moreover have "p < length (r @ ys)"
    using find_line_terminator_lt [OF Some] by blast
  moreover have "hd (ls @ [e]) = take p (r @ ys)"
    using assms(2) Some by (auto simp: split_lines_Some apfst_def map_prod_def split: prod.splits)
  ultimately show ?thesis by simp
qed

text \<open>
  Text in reads that do not end in a CR, each with room beside one line: the lines of the whole are
  delivered when none of them is over the limit.
\<close>

lemma feeds_text:
  assumes "idle c" "IAC \<notin> set (r @ concat chunks)" "find_line_terminator r = None"
    and "\<forall>x \<in> set chunks. \<not> ends_in CR x \<and> length x + max_line_length c \<le> max_buffer_size c"
    and "split_lines (r @ concat chunks) = (ls, e)"
    and "\<forall>l \<in> set (ls @ [e]). length l \<le> max_line_length c"
  shows "\<exists>c'. feeds c r chunks = (delivered ls, c', e) \<and> same_view c c'"
  using assms
proof (induction chunks arbitrary: c r ls)
  case Nil
  then show ?case by (simp add: split_lines_None)
next
  case (Cons x xs)
  obtain l1 r1 where s1: "split_lines (r @ x) = (l1, r1)" by fastforce
  obtain l2 e2 where s2: "split_lines (r1 @ concat xs) = (l2, e2)" by fastforce
  have r: "CR \<notin> set r"
    using Cons.prems(3) by (simp add: find_line_terminator_None)
  then have "\<not> ends_in CR (r @ x)"
    using Cons.prems(4) by (cases x) (auto simp: ends_in_def last_append dest: last_in_set)
  then have all: "ls = l1 @ l2" "e = e2"
    using split_lines_append [OF _ s1 s2] Cons.prems(5) by auto
  have n1: "find_line_terminator r1 = None"
    using split_lines_rest [OF s1] .
  have short: "length r1 \<le> max_line_length c"
    using rest_begins_line [OF n1 s2] Cons.prems(6) all by (cases l2) auto
  have "length r \<le> length (hd (ls @ [e]))"
    using rest_begins_line [OF Cons.prems(3,5)] .
  then have fits: "length (r @ x) \<le> max_buffer_size c"
    using Cons.prems(4,6) by (cases ls) fastforce+
  have "IAC \<notin> set (r @ x)" "set r1 \<subseteq> set (r @ x)"
    using Cons.prems(2) set_split_rest [of "r @ x"] s1 by auto
  moreover obtain c1 where c1: "feed c r x = (delivered l1, c1, r1)" "same_view c c1"
    using feed_text [OF \<open>IAC \<notin> set (r @ x)\<close> Cons.prems(1) fits s1 short] by blast
  moreover have "\<exists>c'. feeds c1 r1 xs = (delivered l2, c', e) \<and> same_view c1 c'"
    using Cons.prems all s2 n1 c1(2) calculation
    by (intro Cons.IH) (auto simp: same_view_idle same_view_limits)
  ultimately show ?case
    by (auto simp: all(1) intro: same_view_trans)
qed

text \<open>Reads with no line ending, while a line is thrown away, give nothing and leave nothing.\<close>

lemma feed_discards:
  assumes "discarding c" "mode_of c = Data" "IAC \<notin> set x" "LF \<notin> set x" "CR \<notin> set x"
    and "length x \<le> max_buffer_size c"
  shows "\<exists>c'. feed c [] x = ([], c', []) \<and> same_view c c'"
proof -
  obtain c1 b1 where s: "strip_iac c x = (c1, b1)"
    by (cases "strip_iac c x")
  note b1 = strip_iac_text [OF assms(2,3) s]
  have "decode c x = (Inr None, c1, [])"
    using decode_drop [OF _ s] b1(1) assms by (simp add: clean_None)
  then show ?thesis
    using b1(2) by (simp add: feed_def telnet.drain_all_unfold)
qed

lemma same_view_discarding: "same_view c c' \<Longrightarrow> discarding c' = discarding c \<and> mode_of c' = mode_of c"
  by (simp add: same_view_def frame_eq_def)

lemma feeds_discards:
  assumes "discarding c" "mode_of c = Data"
    and "\<forall>x \<in> set mids. IAC \<notin> set x \<and> LF \<notin> set x \<and> CR \<notin> set x \<and> length x \<le> max_buffer_size c"
  shows "\<exists>c'. feeds c [] (mids @ chunks) = feeds c' [] chunks \<and> same_view c c'"
  using assms
proof (induction mids arbitrary: c)
  case Nil
  show ?case by (rule exI [of _ c]) simp
next
  case (Cons x xs)
  obtain c1 where c1: "feed c [] x = ([], c1, [])" "same_view c c1"
    using feed_discards [of c x] Cons.prems by auto
  then have "\<exists>c'. feeds c1 [] (xs @ chunks) = feeds c' [] chunks \<and> same_view c1 c'"
    using Cons.prems same_view_discarding [OF c1(2)] by (intro Cons.IH) (auto simp: same_view_limits)
  then show ?case
    using c1 by (auto simp: apfst_def map_prod_def intro: same_view_trans split: prod.splits)
qed

end
