(* ===== verification/CodecProps.thy ===== *)
theory CodecProps
  imports Reading
begin

text \<open>
  What the telnet codec guarantees: the in-place loop computes the abstract reading, the
  driver always stops, lines come out independently of how a plain input was cut into
  reads, text survives the wire, delivered lines hold no line ending and the buffer is
  bounded. The last section states where the decoder departs from that: inputs on which the
  cut between two reads changes what is delivered.
\<close>

section \<open>Correctness\<close>

text \<open>
  C7: the in-place loop of \<open>strip_iac\<close> computes the abstract reading of the buffer,
  from any mode, and changes neither the limits nor the discard flag.
\<close>

theorem strip_iac_computes_reading:
  "case strip_iac c buf of (c', out) \<Rightarrow>
     strip_spec (mode_of c) buf = (mode_of c', out) \<and>
     max_line_length c' = max_line_length c \<and> max_buffer_size c' = max_buffer_size c \<and>
     discarding c' = discarding c"
  using strip_iac_spec [of c buf] by (cases "strip_iac c buf") (simp add: frame_eq_def)

text \<open>
  C23: the reader's loop over the decoder (call it until it has nothing more to give, or fails)
  ends on every buffer, from every state of the decoder, in exactly one way, without any bound
  put on its rounds; and every item it gave has consumed at least one byte of the buffer.
\<close>

theorem drain_ends:
  "(\<exists>!r. drains decode c buf (fst r) (fst (snd r)) (snd (snd r))) \<and>
   (drains decode c buf items c' buf' \<longrightarrow> length (filter is_ok items) + length buf' \<le> length buf)"
  using telnet.drains_unique drains_consumes by blast

theorem drain_ends_witness:
  "length (filter is_ok [Inr (Line [65]) :: codec_error + codec_item]) + length [66 :: u8] \<le> length [65, 10, 66 :: u8]"
proof -
  have "drain_all decode (with_limits 10 100) [65, 10, 66] = ([Inr (Line [65])], with_limits 10 100, [66])"
    by code_simp
  then have "drains decode (with_limits 10 100) [65, 10, 66] [Inr (Line [65])] (with_limits 10 100) [66]"
    by (simp add: telnet.drains_iff)
  then show ?thesis using drain_ends by blast
qed

text \<open>
  C11: on an input whose telnet commands are all plain (no escaped IAC, no subnegotiation),
  feeding two reads one after the other delivers the same lines and keeps the same
  remainder as feeding them at once, unless the cut falls inside a CRLF pair. The input must
  fit the buffer, and what waits for its line ending at the cut and at the end must be within
  the limit on lines: a longer beginning of a line is thrown away when the cut comes before its
  ending, and delivered when it does not.
\<close>

theorem chunk_independence:
  assumes "plain (xs @ ys)" and "idle c" and "length (xs @ ys) \<le> max_buffer_size c"
    and "\<not> cut_inside_crlf xs ys"
    and "length (snd (split_lines (data_of xs))) \<le> max_line_length c"
    and "length (snd (split_lines (data_of (xs @ ys)))) \<le> max_line_length c"
  shows "\<exists>i1 c1 b1 i2 c2 c3 b2.
    feed c [] xs = (i1, c1, b1) \<and> feed c1 b1 ys = (i2, c2, b2) \<and>
    feed c [] (xs @ ys) = (i1 @ i2, c3, b2) \<and> same_view c c1 \<and> same_view c c2 \<and> same_view c c3"
proof -
  obtain l1 r1 where s1: "split_lines (data_of xs) = (l1, r1)" by fastforce
  obtain l2 r2 where s2: "split_lines (data_of (r1 @ ys)) = (l2, r2)" by fastforce
  note cut = cut_plain [OF assms(1,4) s1 s2]
  have "plain xs"
    using assms(1) by (induction xs rule: plain.induct) (auto split: if_splits list.splits)
  moreover have "length r1 \<le> length xs"
    using length_split_rest [of "data_of xs"] length_data_of [of xs] s1 by simp
  ultimately obtain c1 where c1: "feed c [] xs = (delivered l1, c1, r1)" "same_view c c1"
    using feed_plain [of "[]" xs c l1 r1] assms s1 by auto
  obtain c2 where "feed c1 r1 ys = (delivered l2, c2, r2)" "same_view c1 c2"
    using feed_plain [OF cut(2) _ _ s2, of c1] assms cut(1) c1(2) \<open>length r1 \<le> length xs\<close>
    by (auto simp: same_view_idle same_view_limits)
  then have c2: "feed c1 r1 ys = (delivered l2, c2, r2)" "same_view c c2"
    using c1(2) by (auto intro: same_view_trans)
  obtain c3 where c3: "feed c [] (xs @ ys) = (delivered (l1 @ l2), c3, r2)" "same_view c c3"
    using feed_plain [of "[]" "xs @ ys" c "l1 @ l2" r2] assms cut(1) by auto
  then have "feed c [] (xs @ ys) = (delivered l1 @ delivered l2, c3, r2)" "same_view c c3"
    by simp_all
  with c1 c2 show ?thesis by blast
qed

theorem chunk_independence_witness:
  "\<exists>i1 c1 b1 i2 c2 c3 b2.
    feed codec_new [] [104, 255, 251] = (i1, c1, b1) \<and> feed c1 b1 [1, 105, 13, 10, 106] = (i2, c2, b2) \<and>
    feed codec_new [] ([104, 255, 251] @ [1, 105, 13, 10, 106]) = (i1 @ i2, c3, b2) \<and>
    same_view codec_new c1 \<and> same_view codec_new c2 \<and> same_view codec_new c3"
  by (rule chunk_independence) code_simp+

text \<open>
  C12: text survives the wire. A list of lines of valid text without CR and LF, each within the
  limit on lines when encoded, sent UTF-8 encoded, ended by CRLF, with no telnet escaping, is
  delivered exactly, in order, and leaves nothing in the buffer, however the network cuts it
  into reads, as long as no read ends with a CR and each leaves room in the buffer beside one
  line. There is no limit on the whole.
\<close>

theorem lines_roundtrip:
  assumes "idle c"
    and "\<forall>l \<in> set ls. valid_str l \<and> 10 \<notin> set l \<and> 13 \<notin> set l \<and> length (encode l) \<le> max_line_length c"
    and "concat chunks = concat (map (\<lambda>l. encode l @ [CR, LF]) ls)"
    and "\<forall>x \<in> set chunks. (x = [] \<or> last x \<noteq> CR) \<and> length x + max_line_length c \<le> max_buffer_size c"
  shows "\<exists>c'. feeds c [] chunks = (map (\<lambda>l. Inr (Line l)) ls, c', []) \<and> same_view c c'"
proof -
  have sent: "concat chunks = concat (map (\<lambda>l. l @ [CR, LF]) (map encode ls))"
    using assms(3) by (simp add: comp_def)
  have "IAC \<notin> set (concat chunks)"
    unfolding sent using IAC_not_in_encode by (auto simp: IAC_CR_LF)
  moreover have "split_lines (concat chunks) = (map encode ls, [])"
    unfolding sent using assms(2) by (intro split_lines_concat_crlf) (auto simp: terminators_not_in_encode)
  moreover have "delivered (map encode ls) = map (\<lambda>l. Inr (Line l)) ls"
    using assms(2) by (simp add: from_utf8_lossy_encode)
  ultimately show ?thesis
    using feeds_text [of c "[]" chunks "map encode ls" "[]"] assms(1,2,4) by (auto simp: ends_in_def)
qed

theorem lines_roundtrip_witness:
  "\<exists>c'. feeds codec_new [] [[97, 108], [105, 99, 101, 13, 10, 232], [129, 138, 233], [], [189, 139, 13, 10]] =
    (map (\<lambda>l. Inr (Line l)) [lit ''alice'', [0x804a, 0x9f4b]], c', []) \<and> same_view codec_new c'"
  by (rule lines_roundtrip) code_simp+

text \<open>
  C24: a delivered line is at most as long as the buffer limit, is valid text and holds
  neither CR nor LF; when the decoder waits for more input, what it keeps is within the
  line limit; a line reported too long leaves an empty buffer and the decoder discarding;
  and the only error is a buffer over its limit.
\<close>

theorem decode_bounds:
  "case decode c buf of
     (Inl e, c', buf') \<Rightarrow> e = BufferOverflow (max_buffer_size c) \<and> max_buffer_size c < length buf
   | (Inr None, c', buf') \<Rightarrow> length buf' \<le> max_line_length c
   | (Inr (Some LineTooLong), c', buf') \<Rightarrow> discarding c' \<and> buf' = []
   | (Inr (Some (Line l)), c', buf') \<Rightarrow>
       length l \<le> max_buffer_size c \<and> 10 \<notin> set l \<and> 13 \<notin> set l \<and> valid_str l"
  using decode_post_any [of c buf] by (simp add: decode_post_def)

text \<open>
  C34: text whose beginning is over the limit on lines before any line ending has arrived is
  reported once, as too long, and thrown away, however many more reads without a line ending
  follow; the read that brings the CRLF brings the decoder back, and the lines after it are
  delivered normally. Every read is within the buffer's limit, what is left waiting after the
  last is within the limit on lines, and no read holds an IAC.
\<close>

theorem recovery_after_long_line:
  assumes "idle c" and "IAC \<notin> set (long @ concat mids @ junk @ rest)"
    and "LF \<notin> set (long @ concat mids @ junk)" and "CR \<notin> set (long @ concat mids @ junk)"
    and "max_line_length c < length long" and "length long \<le> max_buffer_size c"
    and "\<forall>x \<in> set mids. length x \<le> max_buffer_size c"
    and "length (junk @ CR # LF # rest) \<le> max_buffer_size c"
    and "length (snd (split_lines rest)) \<le> max_line_length c"
  shows "\<exists>c'. feeds c [] (long # mids @ [junk @ CR # LF # rest]) =
      (Inr LineTooLong # map (\<lambda>l. Inr (Line (from_utf8_lossy l))) (fst (split_lines rest)), c',
       snd (split_lines rest)) \<and>
    same_view c c'"
proof -
  obtain c1 where c1: "feed c [] long = ([Inr LineTooLong], c1\<lparr>discarding := True\<rparr>, [])" "same_view c c1"
    using feed_too_long [of c long] assms(1-6) by auto
  let ?d = "c1\<lparr>discarding := True\<rparr>" and ?last = "junk @ CR # LF # rest"
  have d: "mode_of ?d = Data" "max_buffer_size ?d = max_buffer_size c" "max_line_length ?d = max_line_length c"
    using c1(2) assms(1) by (auto simp: same_view_def frame_eq_def idle_def)
  then obtain c2 where c2: "feeds ?d [] (mids @ [?last]) = feeds c2 [] [?last]" "same_view ?d c2"
    using feeds_discards [of ?d mids "[?last]"] assms(2-4,7) by auto
  have "IAC \<notin> set ?last"
    using assms(2) IAC_CR_LF by auto
  moreover have "discarding c2" "mode_of c2 = Data" "max_buffer_size c2 = max_buffer_size c"
    "max_line_length c2 = max_line_length c"
    using same_view_discarding [OF c2(2)] same_view_limits [OF c2(2)] d by simp_all
  ultimately obtain c3 where c3: "feed c2 [] ?last = (delivered (fst (split_lines rest)), c3, snd (split_lines rest))"
      "same_view (c2\<lparr>discarding := False\<rparr>) c3"
    using feed_resumes [of c2 junk rest "fst (split_lines rest)" "snd (split_lines rest)"] assms(3,4,8,9)
    by auto
  have "same_view c c3"
    using c1(2) c2(2) c3(2) assms(1) by (auto simp: same_view_def frame_eq_def idle_def)
  then show ?thesis
    using c1(1) c2(1) c3(1) by simp
qed

theorem recovery_after_long_line_witness:
  "\<exists>c'. feeds (with_limits 3 20) [] ([97, 98, 99, 100] # [[101, 102], [103]] @ [[104] @ CR # LF # [102, 10, 103]]) =
      (Inr LineTooLong # map (\<lambda>l. Inr (Line (from_utf8_lossy l))) (fst (split_lines [102, 10, 103])), c',
       snd (split_lines [102, 10, 103])) \<and>
    same_view (with_limits 3 20) c'"
proof -
  have "split_lines [102, 10, 103] = ([[102]], [103])"
    by code_simp
  then show ?thesis
    by (intro recovery_after_long_line)
       (simp_all add: byte_defs idle_def mode_of_def with_limits_def)
qed

text \<open>
  At the end of the input the last unterminated line is delivered whole, an incomplete
  telnet command after it is dropped, and nothing stays in the buffer.
\<close>

theorem eof_flushes_last_line:
  assumes "idle c" and "IAC \<notin> set d" and "LF \<notin> set d" and "CR \<notin> set d"
    and "t = [] \<or> t = [IAC] \<or> (\<exists>n. is_negotiation n \<and> t = [IAC, n])"
    and "length (d @ t) \<le> max_line_length c" and "length (d @ t) \<le> max_buffer_size c"
  shows "\<exists>c'. decode_eof c (d @ t) =
    (Inr (if d = [] then None else Some (Line (from_utf8_lossy d))), c', []) \<and>
    idle c'"
proof -
  have "settled t"
    using assms(5) by (auto simp: settled_def command_bytes dest: negotiation_bytes)
  moreover have "find_line_terminator (d @ t) = None"
    using assms(3,4) no_terminator_tail [OF assms(5)] by (simp add: find_line_terminator_None)
  ultimately obtain c1 where c1: "decode c (d @ t) = (Inr None, c1, d @ t)" "same_view c c1"
    using decode_waiting [of c "d @ t"] assms by auto
  then have idle: "idle c1" "\<not> in_subnegotiation c1" "\<not> discarding c1"
    using assms(1) same_view_idle [OF c1(2)] by (auto simp: idle_def mode_of_def split: if_splits)
  obtain c2 where "decode_eof c (d @ t) =
      (Inr (if d = [] then None else Some (Line (from_utf8_lossy d))), c2, [])"
    and "discarding c2 = False" "in_subnegotiation c2 = False"
    using decode_eof_waiting [OF c1(1) idle(3,2) assms(2,5)]
    unfolding lossy_decode_with_warning_def by blast
  moreover from this(2,3) have "idle c2"
    by (simp add: idle_def)
  ultimately show ?thesis by blast
qed

theorem eof_flushes_last_line_witness:
  "\<exists>c'. decode_eof codec_new ([104, 105] @ [255, 251]) =
    (Inr (if [104, 105 :: u8] = [] then None else Some (Line (from_utf8_lossy [104, 105]))), c', []) \<and>
    idle c'"
  by (rule eof_flushes_last_line [of codec_new "[104, 105]" "[255, 251]"])
     (simp_all add: is_negotiation_def byte_defs codec_new_def idle_def mode_of_def
       MAX_LINE_LENGTH_def MAX_BUFFER_SIZE_def)

section \<open>Where the cut between two reads shows\<close>

text \<open>
  When a CRLF is split between two reads, the LF that opens the second read is taken
  for a line of its own, so an empty line that was never sent is delivered.
\<close>

theorem split_crlf_gives_empty_line:
  assumes "idle c" and "IAC \<notin> set l" and "LF \<notin> set l" and "CR \<notin> set l"
    and "length l + 2 \<le> max_buffer_size c"
  shows "\<exists>c1 c2 c3. feed c [] (l @ [CR]) = ([Inr (Line (from_utf8_lossy l))], c1, []) \<and>
    feed c1 [] [LF] = ([Inr (Line [])], c2, []) \<and>
    feed c [] (l @ [CR, LF]) = ([Inr (Line (from_utf8_lossy l))], c3, [])"
proof -
  have cr: "split_lines (l @ [CR]) = ([l], [])"
    using assms(3,4) by (simp add: split_lines_Some find_line_terminator_append split_lines_None
        consume_terminator_def nth_append)
  have crlf: "split_lines (l @ [CR, LF]) = ([l], [])" "split_lines [LF] = ([[]], [])"
    using split_lines_crlf [of l "[]"] split_lines_lf [of "[]" "[]"] assms(3,4)
    by (simp_all add: split_lines_None)
  obtain c1 where c1: "feed c [] (l @ [CR]) = (delivered [l], c1, [])" "same_view c c1"
    using feed_text [of "[]" "l @ [CR]" c "[l]" "[]"] assms cr IAC_CR_LF by auto
  moreover obtain c2 where "feed c1 [] [LF] = (delivered [[]], c2, [])"
    using feed_text [of "[]" "[LF]" c1 "[[]]" "[]"] c1(2) assms(1,5) crlf IAC_CR_LF
    by (auto simp: same_view_idle same_view_limits)
  moreover obtain c3 where "feed c [] (l @ [CR, LF]) = (delivered [l], c3, [])"
    using feed_text [of "[]" "l @ [CR, LF]" c "[l]" "[]"] assms crlf IAC_CR_LF by auto
  ultimately show ?thesis by (auto simp: from_utf8_lossy.simps)
qed

theorem split_crlf_gives_empty_line_witness:
  "\<exists>c1 c2 c3. feed codec_new [] ([104, 105] @ [CR]) = ([Inr (Line (from_utf8_lossy [104, 105]))], c1, []) \<and>
    feed c1 [] [LF] = ([Inr (Line [])], c2, []) \<and>
    feed codec_new [] ([104, 105] @ [CR, LF]) = ([Inr (Line (from_utf8_lossy [104, 105]))], c3, [])"
  by (rule split_crlf_gives_empty_line)
     (simp_all add: byte_defs codec_new_def idle_def mode_of_def MAX_BUFFER_SIZE_def)

text \<open>
  The line limit is applied to unterminated input only: a line over the limit is
  delivered whole when its line ending is in the same read, and refused when the line
  ending comes with the next one.
\<close>

theorem line_limit_depends_on_cut:
  assumes "idle c" and "IAC \<notin> set l" and "LF \<notin> set l" and "CR \<notin> set l"
    and "max_line_length c < length l" and "length l + 2 \<le> max_buffer_size c"
  shows "\<exists>c1 c2 c3.
    feed c [] (l @ [CR, LF]) = ([Inr (Line (from_utf8_lossy l))], c1, []) \<and>
    feed c [] l = ([Inr LineTooLong], c2, []) \<and> feed c2 [] [CR, LF] = ([], c3, [])"
proof -
  have "split_lines (l @ [CR, LF]) = ([l], [])"
    using split_lines_crlf [of l "[]"] assms(3,4) by (simp add: split_lines_None)
  then obtain c1 where c1: "feed c [] (l @ [CR, LF]) = (delivered [l], c1, [])"
    using feed_text [of "[]" "l @ [CR, LF]" c "[l]" "[]"] assms IAC_CR_LF by auto
  obtain c2 where c2: "feed c [] l = ([Inr LineTooLong], c2\<lparr>discarding := True\<rparr>, [])" "same_view c c2"
    using feed_too_long [of c l] assms by auto
  have "\<exists>c3. feed (c2\<lparr>discarding := True\<rparr>) [] ([] @ CR # LF # []) = (delivered [], c3, []) \<and>
      same_view (c2\<lparr>discarding := True, discarding := False\<rparr>) c3"
    using c2(2) assms(1,6) IAC_CR_LF
    by (intro feed_resumes) (auto simp: same_view_def frame_eq_def idle_def split_lines_None)
  then show ?thesis
    using c1 c2(1) by auto
qed

theorem line_limit_depends_on_cut_witness:
  "\<exists>c1 c2 c3.
    feed (with_limits 3 20) [] ([97, 98, 99, 100] @ [CR, LF]) =
      ([Inr (Line (from_utf8_lossy [97, 98, 99, 100]))], c1, []) \<and>
    feed (with_limits 3 20) [] [97, 98, 99, 100] = ([Inr LineTooLong], c2, []) \<and>
    feed c2 [] [CR, LF] = ([], c3, [])"
  by (rule line_limit_depends_on_cut)
     (simp_all add: byte_defs with_limits_def idle_def mode_of_def)

text \<open>
  The literal byte 255 an escaped IAC stands for is left in the buffer beside raw
  input, and the next call reads it as the start of a command. Sent in one read,
  text, an escaped 255, a byte and a line feed are delivered as one line; with the cut after
  the escape, the 255 and the byte after it are lost.
\<close>

theorem escaped_iac_reread_as_command:
  assumes "idle c" and "IAC \<notin> set xs" and "LF \<notin> set xs" and "CR \<notin> set xs"
    and "b \<noteq> IAC" and "b \<noteq> SB" and "\<not> is_negotiation b" and "b \<noteq> LF" and "b \<noteq> CR"
    and "length xs + 4 \<le> max_line_length c" and "length xs + 4 \<le> max_buffer_size c"
  shows "\<exists>c1 c2.
    data_of (xs @ [IAC, IAC, b, LF]) = xs @ [IAC, b, LF] \<and>
    feed c [] (xs @ [IAC, IAC]) = ([], c1, xs @ [IAC]) \<and>
    feed c1 (xs @ [IAC]) [b, LF] = ([Inr (Line (from_utf8_lossy xs))], c2, [])"
proof -
  have d1: "data_of (xs @ [IAC, IAC]) = xs @ [IAC]"
    using data_of_escaped [OF assms(2), of "[]"] by simp
  have whole: "data_of (xs @ [IAC, IAC, b, LF]) = xs @ [IAC, b, LF]"
    using data_of_escaped [OF assms(2), of "[b, LF]"] assms(5) IAC_CR_LF(2)
    by (simp add: not_sym)
  have "find_line_terminator (xs @ [IAC]) = None"
    using assms(3,4) IAC_CR_LF by (simp add: find_line_terminator_None)
  then obtain c1 where c1: "feed c [] (xs @ [IAC, IAC]) = ([], c1, xs @ [IAC])" "same_view c c1"
    using feed_waiting [of c "xs @ [IAC, IAC]"] assms d1 by (auto simp: apsnd_def map_prod_def)
  have d2: "data_of ((xs @ [IAC]) @ [b, LF]) = xs @ [LF]"
    using assms(2,5,6,7) by (simp add: data_of_def)
  have "split_lines (xs @ [LF]) = ([xs], [])"
    using split_lines_lf [of xs "[]"] assms(3,4) by (simp add: split_lines_None)
  then obtain c2 where "feed c1 (xs @ [IAC]) [b, LF] = (delivered [xs], c2, [])"
    using feed_plain [of "xs @ [IAC]" "[b, LF]" c1 "[xs]" "[]"] d2 assms c1(2)
    by (auto simp: same_view_idle same_view_limits)
  with whole c1(1) show ?thesis by auto
qed

theorem escaped_iac_reread_as_command_witness:
  "\<exists>c1 c2.
    data_of ([104, 105] @ [IAC, IAC, 65, LF]) = [104, 105] @ [IAC, 65, LF] \<and>
    feed codec_new [] ([104, 105] @ [IAC, IAC]) = ([], c1, [104, 105] @ [IAC]) \<and>
    feed c1 ([104, 105] @ [IAC]) [65, LF] = ([Inr (Line (from_utf8_lossy [104, 105]))], c2, [])"
  by (rule escaped_iac_reread_as_command)
     (simp_all add: byte_defs is_negotiation_def codec_new_def idle_def mode_of_def
       MAX_BUFFER_SIZE_def MAX_LINE_LENGTH_def)

text \<open>
  Input received before a subnegotiation is lost when the read ends inside it. The
  first line is delivered, but the rest of the buffer, complete lines included, is read again
  in the mode the first call ended in and thrown away, while the same bytes with the
  subnegotiation finished in the same read are all kept.
\<close>

theorem open_subnegotiation_loses_input:
  assumes "idle c" and "IAC \<notin> set l" and "LF \<notin> set l" and "CR \<notin> set l" and "IAC \<notin> set xs"
    and "IAC \<notin> set p" and "length (l @ LF # xs @ [IAC, SB]) \<le> max_buffer_size c"
  shows "(\<exists>c'. feed c [] (l @ LF # xs @ [IAC, SB]) = ([Inr (Line (from_utf8_lossy l))], c', [])) \<and>
    data_of (l @ LF # xs @ IAC # SB # p @ [IAC, SE]) = l @ LF # xs"
  using feed_ending_in_subneg [of c l xs] data_of_subneg [of "l @ LF # xs" p "[]"] assms IAC_CR_LF
  by auto

theorem open_subnegotiation_loses_input_witness:
  "(\<exists>c'. feed codec_new [] ([97] @ LF # [98, 10] @ [IAC, SB]) =
      ([Inr (Line (from_utf8_lossy [97]))], c', [])) \<and>
    data_of ([97] @ LF # [98, 10] @ IAC # SB # [31] @ [IAC, SE]) = [97] @ LF # [98, 10]"
  by (rule open_subnegotiation_loses_input)
     (simp_all add: byte_defs codec_new_def idle_def mode_of_def MAX_BUFFER_SIZE_def)

text \<open>
  Inside a subnegotiation an escaped IAC does not protect the byte after it: a
  payload that holds an escaped 255 followed by the byte 240 ends there, and the rest of the
  payload is delivered as text.
\<close>

theorem subnegotiation_escape_not_honoured:
  assumes "IAC \<notin> set xs" and "IAC \<notin> set p" and "IAC \<notin> set q"
  shows "data_of (xs @ IAC # SB # p @ [IAC, IAC, SE] @ q @ IAC # SE # ys) = xs @ q @ data_of ys"
  using assms by (simp add: data_of_def command_bytes strip_spec_Subneg is_negotiation_def byte_defs)

theorem subnegotiation_escape_not_honoured_witness:
  "data_of ([104] @ IAC # SB # [31] @ [IAC, IAC, SE] @ [105] @ IAC # SE # [106]) = [104] @ [105] @ data_of [106]"
  by (rule subnegotiation_escape_not_honoured) (simp_all add: byte_defs)

end
