(* ===== verification/Worlds.thy ===== *)
theory Worlds
  imports Core
begin

text \<open>
  The world registry of \<open>crates/liaozhai-worlds\<close>: the metadata record and the entry
  shape of \<open>metadata.rs\<close>, and the registry with its loading and validation of
  \<open>registry.rs\<close>. Reading the file and decoding TOML (the crate \<open>toml\<close>) are
  parameters that return the decoded entries or the text of an error, and the fresh
  \<open>Uuid\<close> of the entry at index i is the i-th value of a stream. The locale
  \<open>menu\<close> is what a client of the registry relies on: how many choices there are and
  which one a position names.
\<close>

section \<open>Metadata\<close>

record world_metadata =
  wm_id :: world_id
  wm_slug :: ustr
  wm_name :: ustr
  wm_short_description :: ustr

record world_entry_dto =
  dto_slug :: ustr
  dto_name :: ustr
  dto_short :: ustr

definition world_metadata_new :: "uuid \<Rightarrow> ustr \<Rightarrow> ustr \<Rightarrow> ustr \<Rightarrow> world_metadata" where
  "world_metadata_new fresh slug name short =
    \<lparr>wm_id = world_id_new fresh, wm_slug = slug, wm_name = name, wm_short_description = short\<rparr>"

section \<open>The registry\<close>

record world_registry =
  worlds :: "world_metadata list"

definition registry_new :: "world_metadata list \<Rightarrow> world_registry" where
  "registry_new ws = \<lparr>worlds = ws\<rparr>"

definition registry_len :: "world_registry \<Rightarrow> nat" where
  "registry_len r = length (worlds r)"

definition registry_is_empty :: "world_registry \<Rightarrow> bool" where
  "registry_is_empty r = (worlds r = [])"

text \<open>\<open>Vec::get\<close> on an index one below the position; position 0 is answered first.\<close>

definition vec_get :: "'a list \<Rightarrow> nat \<Rightarrow> 'a option" where
  "vec_get xs i = (if i < length xs then Some (xs ! i) else None)"

definition get_by_position :: "world_registry \<Rightarrow> nat \<Rightarrow> world_metadata option" where
  "get_by_position r one_based_index =
    (if one_based_index = 0 then None else vec_get (worlds r) (one_based_index - 1))"

section \<open>Parsing and loading\<close>

definition entry_error :: "nat \<Rightarrow> ustr \<Rightarrow> ustr" where
  "entry_error pos what = lit ''entry '' @ usize_to_string pos @ lit '': '' @ what"

text \<open>The loop of \<open>parse_worlds_toml\<close> from the entry at index i on.\<close>

fun parse_entries :: "(nat \<Rightarrow> uuid) \<Rightarrow> nat \<Rightarrow> ustr set \<Rightarrow> world_metadata list \<Rightarrow> world_entry_dto list
    \<Rightarrow> ustr + world_metadata list" where
  "parse_entries fresh i slugs ws [] = Inr ws"
| "parse_entries fresh i slugs ws (entry # rest) =
    (let pos = i + 1;
         slug = trim (dto_slug entry);
         name = trim (dto_name entry);
         short = trim (dto_short entry)
     in if slug = [] then Inl (entry_error pos (lit ''slug is empty''))
        else if name = [] then Inl (entry_error pos (lit ''name is empty''))
        else if short = [] then Inl (entry_error pos (lit ''short description is empty''))
        else if slug \<in> slugs then
          Inl (entry_error pos (lit ''duplicate slug '' @ [39] @ slug @ [39]))
        else
          parse_entries fresh (i + 1) (insert slug slugs)
            (ws @ [world_metadata_new (fresh i) slug name short]) rest)"

definition parse_worlds_toml :: "(ustr \<Rightarrow> ustr + world_entry_dto list) \<Rightarrow> (nat \<Rightarrow> uuid) \<Rightarrow> ustr
    \<Rightarrow> ustr + world_metadata list" where
  "parse_worlds_toml toml_from_str fresh content =
    and_then (toml_from_str content) (\<lambda>file. parse_entries fresh 0 {} [] file)"

definition load_from_toml :: "(ustr \<Rightarrow> ustr + ustr) \<Rightarrow> (ustr \<Rightarrow> ustr + world_entry_dto list)
    \<Rightarrow> (nat \<Rightarrow> uuid) \<Rightarrow> ustr \<Rightarrow> error + world_registry" where
  "load_from_toml read_to_string toml_from_str fresh path =
    and_then
      (map_err (\<lambda>e. World (lit ''reading '' @ path @ lit '': '' @ e)) (read_to_string path))
      (\<lambda>content. and_then
        (map_err (\<lambda>e. World (lit ''parsing '' @ path @ lit '': '' @ e))
          (parse_worlds_toml toml_from_str fresh content))
        (\<lambda>ws. if ws = [] then Inl (World (lit ''world registry is empty: '' @ path))
              else Inr (registry_new ws)))"

section \<open>What validation accepts\<close>

text \<open>
  The declarative reading: an entry is well formed when its trimmed fields are not empty,
  a file is accepted when all its entries are and the trimmed slugs are distinct, and the
  worlds are the trimmed entries in order.
\<close>

definition entry_ok :: "world_entry_dto \<Rightarrow> bool" where
  "entry_ok e = (trim (dto_slug e) \<noteq> [] \<and> trim (dto_name e) \<noteq> [] \<and> trim (dto_short e) \<noteq> [])"

definition world_of :: "uuid \<Rightarrow> world_entry_dto \<Rightarrow> world_metadata" where
  "world_of u e = world_metadata_new u (trim (dto_slug e)) (trim (dto_name e)) (trim (dto_short e))"

definition worlds_from :: "(nat \<Rightarrow> uuid) \<Rightarrow> nat \<Rightarrow> world_entry_dto list \<Rightarrow> world_metadata list" where
  "worlds_from fresh i es = map (\<lambda>(k, e). world_of (fresh k) e) (enumerate i es)"

definition file_ok :: "ustr set \<Rightarrow> world_entry_dto list \<Rightarrow> bool" where
  "file_ok seen es =
    (list_all entry_ok es \<and> distinct (map (\<lambda>e. trim (dto_slug e)) es) \<and>
     set (map (\<lambda>e. trim (dto_slug e)) es) \<inter> seen = {})"

lemma worlds_from_simps [simp]:
  "worlds_from fresh i [] = []"
  "worlds_from fresh i (e # es) = world_of (fresh i) e # worlds_from fresh (Suc i) es"
  by (simp_all add: worlds_from_def)

lemma length_worlds_from [simp]: "length (worlds_from fresh i es) = length es"
  by (simp add: worlds_from_def)

lemma worlds_from_eq_Nil [simp]: "worlds_from fresh i es = [] \<longleftrightarrow> es = []"
  by (cases es) simp_all

lemma worlds_from_nth:
  "k < length es \<Longrightarrow> worlds_from fresh i es ! k = world_of (fresh (i + k)) (es ! k)"
  by (simp add: worlds_from_def nth_enumerate_eq)

lemma world_of_sel [simp]:
  "wm_id (world_of u e) = WorldId u"
  "wm_slug (world_of u e) = trim (dto_slug e)"
  "wm_name (world_of u e) = trim (dto_name e)"
  "wm_short_description (world_of u e) = trim (dto_short e)"
  by (simp_all add: world_of_def world_metadata_new_def world_id_new_def)

lemma file_ok_Cons:
  "file_ok seen (e # es) \<longleftrightarrow>
    entry_ok e \<and> trim (dto_slug e) \<notin> seen \<and> file_ok (insert (trim (dto_slug e)) seen) es"
  by (auto simp: file_ok_def)

lemma parse_entries_iff:
  "parse_entries fresh i seen ws es = Inr res \<longleftrightarrow>
    file_ok seen es \<and> res = ws @ worlds_from fresh i es"
proof (induction es arbitrary: i seen ws)
  case Nil
  then show ?case by (auto simp: file_ok_def)
next
  case (Cons e es)
  show ?case
    by (simp add: Cons.IH file_ok_Cons Let_def entry_ok_def world_of_def)
qed

text \<open>The message for the first entry that is refused, given the slugs before it.\<close>

definition entry_fault :: "ustr set \<Rightarrow> world_entry_dto \<Rightarrow> ustr option" where
  "entry_fault seen e =
    (if trim (dto_slug e) = [] then Some (lit ''slug is empty'')
     else if trim (dto_name e) = [] then Some (lit ''name is empty'')
     else if trim (dto_short e) = [] then Some (lit ''short description is empty'')
     else if trim (dto_slug e) \<in> seen
       then Some (lit ''duplicate slug '' @ [39] @ trim (dto_slug e) @ [39])
     else None)"

lemma parse_entries_fault:
  "file_ok seen es \<Longrightarrow>
   entry_fault (seen \<union> set (map (\<lambda>e. trim (dto_slug e)) es)) bad = Some what \<Longrightarrow>
   parse_entries fresh i seen ws (es @ bad # rest) = Inl (entry_error (i + length es + 1) what)"
proof (induction es arbitrary: i seen ws)
  case Nil
  then show ?case by (auto simp: entry_fault_def Let_def split: if_splits)
next
  case (Cons e es)
  have "parse_entries fresh (Suc i) (insert (trim (dto_slug e)) seen) ws' (es @ bad # rest) =
      Inl (entry_error (Suc i + length es + 1) what)" for ws'
    using Cons.prems by (intro Cons.IH) (auto simp: file_ok_Cons)
  then show ?case
    using Cons.prems(1) by (auto simp: file_ok_Cons Let_def entry_ok_def)
qed

lemma load_from_toml_Inr:
  "load_from_toml rd ts fresh path = Inr reg \<longleftrightarrow>
    (\<exists>content es. rd path = Inr content \<and> ts content = Inr es \<and> es \<noteq> [] \<and> file_ok {} es \<and>
      reg = registry_new (worlds_from fresh 0 es))"
proof (cases "rd path")
  case (Inr content)
  show ?thesis
  proof (cases "ts content")
    case Inr2: (Inr es)
    show ?thesis
    proof (cases "parse_entries fresh 0 {} [] es")
      case (Inl e)
      then have "\<not> file_ok {} es"
        using parse_entries_iff [of fresh 0 "{}" "[]" es "worlds_from fresh 0 es"] by auto
      then show ?thesis
        by (simp add: load_from_toml_def parse_worlds_toml_def Inr Inr2 Inl)
    next
      case ws: (Inr ws)
      then have "file_ok {} es \<and> ws = worlds_from fresh 0 es"
        by (simp add: parse_entries_iff)
      with ws show ?thesis
        by (auto simp: load_from_toml_def parse_worlds_toml_def Inr Inr2)
    qed
  qed (simp add: load_from_toml_def parse_worlds_toml_def Inr)
qed (simp add: load_from_toml_def)

section \<open>The interface a client of the registry uses\<close>

locale menu =
  fixes count :: "'r \<Rightarrow> nat" and pick :: "'r \<Rightarrow> nat \<Rightarrow> 'w option" and entries :: "'r \<Rightarrow> 'w list"
  assumes count_entries: "count r = length (entries r)"
    and pick_in_range: "1 \<le> k \<Longrightarrow> k \<le> count r \<Longrightarrow> pick r k = Some (entries r ! (k - 1))"
    and pick_out_of_range: "k = 0 \<or> count r < k \<Longrightarrow> pick r k = None"
begin

lemma pick_Some_iff: "pick r k = Some w \<longleftrightarrow> 1 \<le> k \<and> k \<le> count r \<and> w = entries r ! (k - 1)"
  using pick_in_range [of k r] pick_out_of_range [of k r] by (cases "1 \<le> k \<and> k \<le> count r") auto

lemma pick_None_iff: "pick r k = None \<longleftrightarrow> k = 0 \<or> count r < k"
  using pick_in_range [of k r] pick_out_of_range [of k r] by (cases "1 \<le> k \<and> k \<le> count r") auto

lemma pick_mem: "pick r k = Some w \<Longrightarrow> w \<in> set (entries r)"
  by (auto simp: pick_Some_iff count_entries)

lemma every_entry_has_position: "w \<in> set (entries r) \<Longrightarrow> \<exists>k. pick r k = Some w"
  by (metis Suc_leI Suc_pred' count_entries diff_Suc_1 in_set_conv_nth le_add1 pick_in_range plus_1_eq_Suc)

end

interpretation registry: menu registry_len get_by_position worlds
  by unfold_locales (auto simp: registry_len_def get_by_position_def vec_get_def)

end
