(* ===== verification/WorldsProps.thy ===== *)
theory WorldsProps
  imports Worlds
begin

text \<open>
  What loading a world file guarantees: exactly the files with well-formed entries and
  distinct slugs are accepted, the first offending entry is the one reported, and a loaded
  registry is never empty and numbers its worlds from one in file order.
\<close>

text \<open>
  C26: a world file is accepted exactly when every entry has a slug, a name and a
  description that are not blank and no two trimmed slugs are equal; the worlds are then
  the trimmed entries in file order, the one at index i with the i-th fresh id.
\<close>

theorem parse_worlds_accepts:
  "parse_worlds_toml toml_from_str fresh content = Inr ws \<longleftrightarrow>
    (\<exists>es. toml_from_str content = Inr es \<and>
      list_all (\<lambda>e. trim (dto_slug e) \<noteq> [] \<and> trim (dto_name e) \<noteq> [] \<and> trim (dto_short e) \<noteq> []) es \<and>
      distinct (map (\<lambda>e. trim (dto_slug e)) es) \<and>
      length ws = length es \<and> (\<forall>i < length es. ws ! i = world_of (fresh i) (es ! i)))"
proof -
  have "res = worlds_from fresh 0 es \<longleftrightarrow>
      length res = length es \<and> (\<forall>i < length es. res ! i = world_of (fresh i) (es ! i))" for res es
    by (auto simp: worlds_from_nth intro: nth_equalityI)
  then show ?thesis
    by (auto simp: parse_worlds_toml_def and_then_Inr_iff parse_entries_iff file_ok_def entry_ok_def [abs_def])
qed

definition example_entry :: "string \<Rightarrow> world_entry_dto" where
  "example_entry s = \<lparr>dto_slug = lit s, dto_name = lit ''N'', dto_short = lit ''D''\<rparr>"

theorem parse_worlds_accepts_witness:
  "parse_worlds_toml (\<lambda>_. Inr [example_entry '' a'', example_entry ''b'']) of_nat [] =
    Inr [world_of 0 (example_entry '' a''), world_of 1 (example_entry ''b'')]"
proof -
  let ?es = "[example_entry '' a'', example_entry ''b'']"
  have "list_all (\<lambda>e. trim (dto_slug e) \<noteq> [] \<and> trim (dto_name e) \<noteq> [] \<and> trim (dto_short e) \<noteq> []) ?es"
    and "distinct (map (\<lambda>e. trim (dto_slug e)) ?es)"
    by code_simp+
  then show ?thesis
    by (subst parse_worlds_accepts) (auto simp: less_Suc_eq)
qed

text \<open>
  C27: when a file is refused for its contents, the error names the first entry that is
  wrong, by its position from one, and what is wrong with it: checked in the order slug,
  name, description, duplicate.
\<close>

theorem parse_worlds_first_error:
  assumes "toml_from_str content = Inr (good @ bad # rest)" and "file_ok {} good"
    and "entry_fault (set (map (\<lambda>e. trim (dto_slug e)) good)) bad = Some what"
  shows "parse_worlds_toml toml_from_str fresh content =
    Inl (lit ''entry '' @ usize_to_string (length good + 1) @ lit '': '' @ what)"
  using parse_entries_fault [of "{}" good bad what fresh 0 "[]" rest] assms
  by (simp add: parse_worlds_toml_def entry_error_def)

theorem parse_worlds_first_error_witness:
  "parse_worlds_toml (\<lambda>_. Inr ([example_entry ''a''] @ example_entry '' a '' # [example_entry []])) of_nat [] =
    Inl (lit ''entry '' @ usize_to_string (length [example_entry ''a''] + 1) @ lit '': '' @
      lit ''duplicate slug '' @ [39, 97, 39])"
  by (rule parse_worlds_first_error) (rule refl, code_simp, code_simp)

text \<open>
  C28: a registry that loads holds the entries of the file, trimmed, in the order of the file, the
  one at index i with the i-th fresh id; it is not empty, its slugs are distinct, none of
  its fields is blank or has white space around it, and the positions that name a world are
  exactly the numbers from one to the number of entries, each naming its own.
\<close>

theorem loaded_registry_valid:
  assumes "load_from_toml read_to_string toml_from_str fresh path = Inr reg"
  shows "(\<exists>content es. read_to_string path = Inr content \<and> toml_from_str content = Inr es \<and>
      length (worlds reg) = length es \<and> (\<forall>i < length es. worlds reg ! i = world_of (fresh i) (es ! i))) \<and>
    0 < registry_len reg \<and> distinct (map wm_slug (worlds reg)) \<and>
    (\<forall>w \<in> set (worlds reg). \<forall>f \<in> {wm_slug w, wm_name w, wm_short_description w}. f \<noteq> [] \<and> trim f = f) \<and>
    (\<forall>k w. get_by_position reg k = Some w \<longleftrightarrow> 1 \<le> k \<and> k \<le> registry_len reg \<and> w = worlds reg ! (k - 1))"
proof -
  obtain content es where decoded: "read_to_string path = Inr content" "toml_from_str content = Inr es"
    and es: "es \<noteq> []" "file_ok {} es" "reg = registry_new (worlds_from fresh 0 es)"
    using assms by (auto simp: load_from_toml_Inr)
  then have ws: "worlds reg = worlds_from fresh 0 es"
    by (simp add: registry_new_def)
  have "map wm_slug (worlds reg) = map (\<lambda>e. trim (dto_slug e)) es"
    by (rule nth_equalityI) (simp_all add: ws worlds_from_nth)
  moreover have "entry_ok (es ! k)" if "k < length es" for k
    using es(2) that by (simp add: file_ok_def list_all_length)
  ultimately show ?thesis
    using es(1,2) decoded registry.pick_Some_iff [of reg]
    by (auto simp: ws in_set_conv_nth worlds_from_nth entry_ok_def file_ok_def registry_len_def)
qed

theorem loaded_registry_valid_witness:
  "0 < registry_len (registry_new [world_of 0 (example_entry ''a'')])"
proof -
  have "load_from_toml (\<lambda>_. Inr []) (\<lambda>_. Inr [example_entry ''a'']) of_nat (lit ''worlds.toml'') =
      Inr (registry_new [world_of 0 (example_entry ''a'')])"
    by code_simp
  from loaded_registry_valid [OF this] show ?thesis by blast
qed

end
