(* ===== verification/RateLimiter.thy ===== *)
theory RateLimiter
  imports Prelude "HOL-Library.AList"
begin

text \<open>
  The per-address failure tracker of \<open>crates/liaozhai-auth/src/rate_limiter.rs\<close>. An
  \<open>Instant\<close> is an integer, and each call of \<open>Instant::now()\<close> is an argument of
  the operation that makes it, in the order the code makes them; \<open>imin\<close> is the
  earliest instant the platform can represent, below which \<open>checked_sub\<close> fails. The
  hash map is an association list; the order in which iterating over it visits the entries
  is the argument \<open>order\<close>, of which only the set of entries visited is known. The mutex
  makes each operation atomic; the code never panics while it holds it, so it is not poisoned.
\<close>

section \<open>State and operations\<close>

datatype ip_addr = V4 u32 | V6 "128 word"

type_synonym instant = int
type_synonym failure_map = "(ip_addr \<times> instant list) list"

record rate_limiter =
  rl_window :: int
  rl_max_failures :: nat
  rl_max_entries :: nat
  rl_failures :: failure_map

definition rate_limiter_new :: "int \<Rightarrow> nat \<Rightarrow> nat \<Rightarrow> rate_limiter" where
  "rate_limiter_new window max_failures max_entries =
    \<lparr>rl_window = window, rl_max_failures = max_failures, rl_max_entries = max_entries,
     rl_failures = []\<rparr>"

definition checked_sub :: "int \<Rightarrow> instant \<Rightarrow> int \<Rightarrow> instant option" where
  "checked_sub imin t d = (if t - d < imin then None else Some (t - d))"

fun pop_front_before :: "instant \<Rightarrow> instant list \<Rightarrow> instant list" where
  "pop_front_before cutoff [] = []"
| "pop_front_before cutoff (t # ts) =
    (if t < cutoff then pop_front_before cutoff ts else t # ts)"

definition prune :: "int \<Rightarrow> instant \<Rightarrow> instant \<Rightarrow> instant list \<Rightarrow> int \<Rightarrow> instant list" where
  "prune imin now1 now2 deque window =
    (let cutoff = (case checked_sub imin now1 window of Some t \<Rightarrow> t | None \<Rightarrow> now2)
     in pop_front_before cutoff deque)"

text \<open>\<open>min_by_key\<close>: the first of the entries with the least key.\<close>

fun min_by_key :: "('a \<Rightarrow> instant) \<Rightarrow> 'a list \<Rightarrow> 'a option" where
  "min_by_key f [] = None"
| "min_by_key f (x # xs) =
    (case min_by_key f xs of None \<Rightarrow> Some x | Some y \<Rightarrow> if f x \<le> f y then Some x else Some y)"

definition find_oldest_entry :: "failure_map \<Rightarrow> ip_addr option" where
  "find_oldest_entry entries =
    map_option fst
      (min_by_key snd
        (List.map_filter (\<lambda>(ip, deque). if deque = [] then None else Some (ip, last deque)) entries))"

definition is_throttled :: "int \<Rightarrow> instant \<Rightarrow> instant \<Rightarrow> ip_addr \<Rightarrow> rate_limiter \<Rightarrow> bool \<times> rate_limiter" where
  "is_throttled imin now1 now2 ip rl =
    (case map_of (rl_failures rl) ip of
       Some deque \<Rightarrow>
         let deque' = prune imin now1 now2 deque (rl_window rl)
         in (rl_max_failures rl \<le> length deque',
             rl\<lparr>rl_failures := AList.update ip deque' (rl_failures rl)\<rparr>)
     | None \<Rightarrow> (False, rl))"

definition evict_if_full :: "(failure_map \<Rightarrow> failure_map) \<Rightarrow> ip_addr \<Rightarrow> rate_limiter \<Rightarrow> failure_map" where
  "evict_if_full order ip rl =
    (if map_of (rl_failures rl) ip = None \<and> rl_max_entries rl \<le> length (rl_failures rl) then
       case find_oldest_entry (order (rl_failures rl)) of
         Some oldest_ip \<Rightarrow> AList.delete oldest_ip (rl_failures rl)
       | None \<Rightarrow> rl_failures rl
     else rl_failures rl)"

definition record_failure :: "(failure_map \<Rightarrow> failure_map) \<Rightarrow> int \<Rightarrow> instant \<Rightarrow> instant \<Rightarrow> instant
    \<Rightarrow> ip_addr \<Rightarrow> rate_limiter \<Rightarrow> rate_limiter" where
  "record_failure order imin now1 now2 now3 ip rl =
    (let m = evict_if_full order ip rl;
         deque = (case map_of m ip of Some d \<Rightarrow> d | None \<Rightarrow> [])
     in rl\<lparr>rl_failures := AList.update ip (prune imin now1 now2 deque (rl_window rl) @ [now3]) m\<rparr>)"

definition reset :: "ip_addr \<Rightarrow> rate_limiter \<Rightarrow> rate_limiter" where
  "reset ip rl = rl\<lparr>rl_failures := AList.delete ip (rl_failures rl)\<rparr>"

section \<open>Pruning\<close>

lemma pop_front_before_dropWhile: "pop_front_before cutoff d = dropWhile (\<lambda>t. t < cutoff) d"
  by (induction d) auto

lemma pop_front_before_sorted:
  "sorted d \<Longrightarrow> pop_front_before cutoff d = filter (\<lambda>t. cutoff \<le> t) d"
proof (induction d)
  case (Cons t ts)
  then show ?case
    by (auto simp: not_less intro!: sym [OF filter_True] dest: order_trans)
qed simp

lemma prune_in_range:
  "imin \<le> now1 - window \<Longrightarrow> prune imin now1 now2 d window = pop_front_before (now1 - window) d"
  by (simp add: prune_def checked_sub_def)

lemma prune_underflow:
  "now1 - window < imin \<Longrightarrow> prune imin now1 now2 d window = pop_front_before now2 d"
  by (simp add: prune_def checked_sub_def)

lemma pop_front_before_all: "\<forall>t \<in> set d. t < cutoff \<Longrightarrow> pop_front_before cutoff d = []"
  by (simp add: pop_front_before_dropWhile)

lemma pop_front_before_append:
  "\<forall>t \<in> set old. t < cutoff \<Longrightarrow> pop_front_before cutoff (old @ d) = pop_front_before cutoff d"
  by (induction old) auto

lemma pop_front_before_suffix: "\<exists>old. d = old @ pop_front_before cutoff d \<and> (\<forall>t \<in> set old. t < cutoff)"
  by (metis pop_front_before_dropWhile set_takeWhileD takeWhile_dropWhile_id)

section \<open>The oldest entry\<close>

lemma min_by_key_None [simp]: "min_by_key f xs = None \<longleftrightarrow> xs = []"
  by (cases xs) (auto split: option.splits)

lemma min_by_key_Some: "min_by_key f xs = Some x \<Longrightarrow> x \<in> set xs \<and> (\<forall>y \<in> set xs. f x \<le> f y)"
proof (induction xs arbitrary: x)
  case (Cons a xs)
  then show ?case
    by (cases "min_by_key f xs") (fastforce split: if_splits)+
qed simp

lemma set_map_filter: "set (List.map_filter f xs) = {y. \<exists>x \<in> set xs. f x = Some y}"
  by (auto simp: List.map_filter_def) force

lemma find_oldest_entry_Some:
  assumes "find_oldest_entry es = Some ip"
  shows "\<exists>d. (ip, d) \<in> set es \<and> d \<noteq> [] \<and> (\<forall>(ip', d') \<in> set es. d' \<noteq> [] \<longrightarrow> last d \<le> last d')"
proof -
  obtain t where "min_by_key snd
      (List.map_filter (\<lambda>(ip, deque). if deque = [] then None else Some (ip, last deque)) es) = Some (ip, t)"
    using assms by (auto simp: find_oldest_entry_def)
  from min_by_key_Some [OF this] show ?thesis
    by (fastforce simp: set_map_filter split: if_splits)
qed

lemma find_oldest_entry_None: "find_oldest_entry es = None \<longleftrightarrow> (\<forall>(ip, d) \<in> set es. d = [])"
proof -
  have "List.map_filter (\<lambda>(ip, deque). if deque = [] then None else Some (ip, last deque)) es = [] \<longleftrightarrow>
      (\<forall>(ip, d) \<in> set es. d = [])"
    by (induction es) (auto simp: List.map_filter_simps split: if_splits)
  then show ?thesis by (simp add: find_oldest_entry_def)
qed

section \<open>Events and runs\<close>

datatype rl_event =
    Failed ip_addr instant instant instant
  | Checked ip_addr instant instant
  | Cleared ip_addr

fun rl_step :: "(failure_map \<Rightarrow> failure_map) \<Rightarrow> int \<Rightarrow> rl_event \<Rightarrow> rate_limiter \<Rightarrow> rate_limiter" where
  "rl_step order imin (Failed ip t1 t2 t3) rl = record_failure order imin t1 t2 t3 ip rl"
| "rl_step order imin (Checked ip t1 t2) rl = snd (is_throttled imin t1 t2 ip rl)"
| "rl_step order imin (Cleared ip) rl = reset ip rl"

lemma record_failure_limits [simp]:
  "rl_window (record_failure order imin t1 t2 t3 ip rl) = rl_window rl"
  "rl_max_failures (record_failure order imin t1 t2 t3 ip rl) = rl_max_failures rl"
  "rl_max_entries (record_failure order imin t1 t2 t3 ip rl) = rl_max_entries rl"
  by (simp_all add: record_failure_def Let_def)

lemma is_throttled_limits [simp]:
  "rl_window (snd (is_throttled imin t1 t2 ip rl)) = rl_window rl"
  "rl_max_failures (snd (is_throttled imin t1 t2 ip rl)) = rl_max_failures rl"
  "rl_max_entries (snd (is_throttled imin t1 t2 ip rl)) = rl_max_entries rl"
  by (simp_all add: is_throttled_def Let_def split: option.split)

lemma reset_limits [simp]:
  "rl_window (reset ip rl) = rl_window rl"
  "rl_max_failures (reset ip rl) = rl_max_failures rl"
  "rl_max_entries (reset ip rl) = rl_max_entries rl"
  by (simp_all add: reset_def)

lemma rl_step_limits [simp]:
  "rl_window (rl_step order imin e rl) = rl_window rl"
  "rl_max_failures (rl_step order imin e rl) = rl_max_failures rl"
  "rl_max_entries (rl_step order imin e rl) = rl_max_entries rl"
  by (cases e; simp)+

definition keys_distinct :: "rate_limiter \<Rightarrow> bool" where
  "keys_distinct rl = distinct (map fst (rl_failures rl))"

lemma evict_keys_distinct: "keys_distinct rl \<Longrightarrow> distinct (map fst (evict_if_full order ip rl))"
  by (auto simp: evict_if_full_def keys_distinct_def distinct_delete split: option.split)

lemma rl_step_keys_distinct: "keys_distinct rl \<Longrightarrow> keys_distinct (rl_step order imin e rl)"
  using evict_keys_distinct [of rl order]
  by (cases e)
     (auto simp: record_failure_def is_throttled_def reset_def keys_distinct_def Let_def
       distinct_update distinct_delete split: option.split)

definition deque_of :: "ip_addr \<Rightarrow> rate_limiter \<Rightarrow> instant list" where
  "deque_of ip rl = (case map_of (rl_failures rl) ip of Some d \<Rightarrow> d | None \<Rightarrow> [])"

lemma length_AList_update:
  "distinct (map fst m) \<Longrightarrow>
   length (AList.update k v m) = (if map_of m k = None then Suc (length m) else length m)"
  by (induction m) auto

lemma length_AList_delete:
  "distinct (map fst m) \<Longrightarrow> k \<in> fst ` set m \<Longrightarrow> Suc (length (AList.delete k m)) = length m"
proof (induction m)
  case (Cons x m)
  then show ?case
    by (cases "fst x = k") (auto simp: delete_notin_dom)
qed simp

section \<open>The bound on the map\<close>

text \<open>
  As long as no deque is empty, a full map always has an entry to evict. Recording a failure
  and clearing an address keep it so; asking whether an address is throttled does not.
\<close>

definition bounded_inv :: "(failure_map \<Rightarrow> failure_map) \<Rightarrow> rate_limiter \<Rightarrow> bool" where
  "bounded_inv order rl =
    ((\<forall>m. set (order m) = set m) \<and> keys_distinct rl \<and>
     (\<forall>(ip, d) \<in> set (rl_failures rl). d \<noteq> []) \<and>
     length (rl_failures rl) \<le> max 1 (rl_max_entries rl))"

fun not_a_check :: "rl_event \<Rightarrow> rate_limiter \<Rightarrow> bool" where
  "not_a_check (Checked _ _ _) rl = False"
| "not_a_check _ rl = True"

lemma set_AList_update: "set (AList.update k v m) \<subseteq> insert (k, v) (set m)"
  by (induction m) auto

lemma set_AList_delete: "set (AList.delete k m) \<subseteq> set m"
  by (induction m) auto

lemma evict_makes_room:
  assumes "bounded_inv order rl" "map_of (rl_failures rl) ip = None"
  shows "Suc (length (evict_if_full order ip rl)) \<le> max 1 (rl_max_entries rl)"
proof (cases "rl_max_entries rl \<le> length (rl_failures rl)")
  case full: True
  show ?thesis
  proof (cases "find_oldest_entry (order (rl_failures rl))")
    case None
    then have "\<forall>(ip, d) \<in> set (rl_failures rl). d = []"
      using assms(1) by (simp add: bounded_inv_def find_oldest_entry_None)
    moreover have "\<forall>(ip, d) \<in> set (rl_failures rl). d \<noteq> []"
      using assms(1) by (simp add: bounded_inv_def)
    ultimately have "rl_failures rl = []"
      by (cases "rl_failures rl") auto
    then show ?thesis
      using full None by (simp add: evict_if_full_def)
  next
    case (Some old)
    obtain d where "(old, d) \<in> set (order (rl_failures rl))"
      using find_oldest_entry_Some [OF Some] by blast
    then have "(old, d) \<in> set (rl_failures rl)"
      using assms(1) by (simp add: bounded_inv_def)
    then have "old \<in> fst ` set (rl_failures rl)"
      by (metis fst_conv image_eqI)
    then have "Suc (length (AList.delete old (rl_failures rl))) = length (rl_failures rl)"
      using assms(1) by (intro length_AList_delete) (simp_all add: bounded_inv_def keys_distinct_def)
    then show ?thesis
      using full Some assms by (simp add: evict_if_full_def bounded_inv_def)
  qed
next
  case False
  then show ?thesis by (auto simp: evict_if_full_def)
qed

lemma evict_known: "map_of (rl_failures rl) ip \<noteq> None \<Longrightarrow> evict_if_full order ip rl = rl_failures rl"
  by (auto simp: evict_if_full_def)

lemma set_evict: "set (evict_if_full order ip rl) \<subseteq> set (rl_failures rl)"
  by (auto simp: evict_if_full_def split: option.splits dest!: subsetD [OF set_AList_delete])

lemma evict_map_of:
  "map_of (rl_failures rl) ip = None \<Longrightarrow> map_of (evict_if_full order ip rl) ip = None"
  using set_evict [of order ip rl] by (force simp: map_of_eq_None_iff)

lemma record_failure_bounded:
  assumes "bounded_inv order rl"
  shows "bounded_inv order (record_failure order imin t1 t2 t3 ip rl)"
proof -
  let ?m = "evict_if_full order ip rl"
  have d: "distinct (map fst ?m)"
    using assms by (intro evict_keys_distinct) (simp add: bounded_inv_def)
  have "length (AList.update ip v ?m) \<le> max 1 (rl_max_entries rl)" for v
  proof (cases "map_of (rl_failures rl) ip")
    case None
    then show ?thesis
      using evict_makes_room [OF assms None] evict_map_of [OF None] d
      by (simp add: length_AList_update)
  next
    case (Some x)
    then show ?thesis
      using assms by (simp add: evict_known length_AList_update bounded_inv_def keys_distinct_def)
  qed
  moreover have "\<forall>(ip', d) \<in> set (AList.update ip (v @ [t3]) ?m). d \<noteq> []" for v
    using set_AList_update [of ip "v @ [t3]" ?m] set_evict [of order ip rl] assms
    by (fastforce simp: bounded_inv_def)
  ultimately show ?thesis
    using assms rl_step_keys_distinct [of rl order imin "Failed ip t1 t2 t3"]
    by (simp add: bounded_inv_def record_failure_def Let_def)
qed

lemma reset_bounded: "bounded_inv order rl \<Longrightarrow> bounded_inv order (reset ip rl)"
  using rl_step_keys_distinct [of rl order 0 "Cleared ip"] set_AList_delete [of ip "rl_failures rl"]
    length_delete_le [of ip "rl_failures rl"]
  by (auto simp: bounded_inv_def reset_def)

interpretation bounded: guarded_machine "rl_step order imin" not_a_check "bounded_inv order"
  for order imin
proof
  fix rl e
  assume "bounded_inv order rl" "not_a_check e rl"
  then show "bounded_inv order (rl_step order imin e rl)"
    by (cases e) (simp_all add: record_failure_bounded reset_bounded)
qed

text \<open>A check of an address whose failures have all left the window leaves an empty deque.\<close>

fun spread :: "int \<Rightarrow> instant \<Rightarrow> ip_addr list \<Rightarrow> rl_event list" where
  "spread window t [] = []"
| "spread window t (ip # ips) =
    Failed ip t t t # Checked ip (t + window + 1) (t + window + 1) # spread window (t + window + 1) ips"

definition hollow :: "rate_limiter \<Rightarrow> bool" where
  "hollow rl = (\<forall>(ip, d) \<in> set (rl_failures rl). d = [])"

lemma hollow_step:
  assumes "hollow rl" "\<forall>m. set (order m) = set m" "map_of (rl_failures rl) ip = None"
    "0 \<le> rl_window rl" "imin \<le> t"
  shows "rl_step order imin (Checked ip (t + rl_window rl + 1) t2) (rl_step order imin (Failed ip t t t) rl)
    = rl\<lparr>rl_failures := AList.update ip [] (rl_failures rl)\<rparr>"
proof -
  have e: "evict_if_full order ip rl = rl_failures rl"
    using assms(1,2) find_oldest_entry_None [of "order (rl_failures rl)"]
    by (auto simp: evict_if_full_def hollow_def)
  have "prune imin t t [] w = []" for w
    by (simp add: prune_def)
  moreover have "prune imin (t + rl_window rl + 1) t2 [t] (rl_window rl) = []"
    using assms(5) by (simp add: prune_in_range)
  ultimately show ?thesis
    using assms(3) by (simp add: record_failure_def is_throttled_def e update_conv')
qed

lemma spread_grows:
  "hollow rl \<Longrightarrow> keys_distinct rl \<Longrightarrow> \<forall>m. set (order m) = set m \<Longrightarrow> distinct ips \<Longrightarrow>
   \<forall>ip \<in> set ips. map_of (rl_failures rl) ip = None \<Longrightarrow> 0 \<le> rl_window rl \<Longrightarrow> imin \<le> t \<Longrightarrow>
   length (rl_failures (fold (rl_step order imin) (spread (rl_window rl) t ips) rl)) =
     length (rl_failures rl) + length ips"
proof (induction ips arbitrary: rl t)
  case (Cons ip ips)
  let ?rl = "rl\<lparr>rl_failures := AList.update ip [] (rl_failures rl)\<rparr>"
  have "hollow ?rl"
    using Cons.prems(1) set_AList_update [of ip "[]" "rl_failures rl"] by (fastforce simp: hollow_def)
  moreover have "keys_distinct ?rl"
    using Cons.prems(2) by (simp add: keys_distinct_def distinct_update)
  moreover have "\<forall>i \<in> set ips. map_of (rl_failures ?rl) i = None"
    using Cons.prems(4,5) by (auto simp: update_conv')
  ultimately have "length (rl_failures (fold (rl_step order imin)
      (spread (rl_window rl) (t + rl_window rl + 1) ips) ?rl)) = length (rl_failures ?rl) + length ips"
    using Cons.IH [of ?rl "t + rl_window rl + 1"] Cons.prems by simp
  moreover have "length (rl_failures ?rl) = Suc (length (rl_failures rl))"
    using Cons.prems(2,5) by (simp add: keys_distinct_def length_AList_update)
  moreover have "rl_step order imin (Checked ip (t + rl_window rl + 1) (t + rl_window rl + 1))
      (rl_step order imin (Failed ip t t t) rl) = ?rl"
    using Cons.prems by (intro hollow_step) auto
  ultimately show ?case
    by (simp del: rl_step.simps)
qed simp

section \<open>The sliding window\<close>

text \<open>
  The specification keeps the whole history: every failure since the last success of its
  address, with its time. An address is throttled when enough of them lie in the window. The
  limiter agrees with it as long as no entry was evicted, that is while the addresses seen
  fit in the map.
\<close>

type_synonym failure_log = "(ip_addr \<times> instant) list"

fun log_step :: "rl_event \<Rightarrow> failure_log \<Rightarrow> failure_log" where
  "log_step (Failed ip t1 t2 t3) log = log @ [(ip, t3)]"
| "log_step (Checked ip t1 t2) log = log"
| "log_step (Cleared ip) log = filter (\<lambda>(i, t). i \<noteq> ip) log"

definition failures_of :: "ip_addr \<Rightarrow> failure_log \<Rightarrow> instant list" where
  "failures_of ip log = map snd (filter (\<lambda>(i, t). i = ip) log)"

fun time_after :: "rl_event \<Rightarrow> instant \<Rightarrow> instant" where
  "time_after (Failed ip t1 t2 t3) now = t3"
| "time_after (Checked ip t1 t2) now = t2"
| "time_after (Cleared ip) now = now"

type_synonym tracked = "instant \<times> failure_log \<times> rate_limiter"

fun tracked_step :: "(failure_map \<Rightarrow> failure_map) \<Rightarrow> int \<Rightarrow> rl_event \<Rightarrow> tracked \<Rightarrow> tracked" where
  "tracked_step order imin e (now, log, rl) = (time_after e now, log_step e log, rl_step order imin e rl)"

text \<open>Events come in the order of the clock, and name the addresses of a given list.\<close>

fun timely :: "int \<Rightarrow> ip_addr list \<Rightarrow> rl_event \<Rightarrow> tracked \<Rightarrow> bool" where
  "timely imin ips (Failed ip t1 t2 t3) (now, log, rl) =
    (now \<le> t1 \<and> t1 \<le> t2 \<and> t2 \<le> t3 \<and> imin \<le> t1 - rl_window rl \<and> ip \<in> set ips)"
| "timely imin ips (Checked ip t1 t2) (now, log, rl) =
    (now \<le> t1 \<and> t1 \<le> t2 \<and> imin \<le> t1 - rl_window rl)"
| "timely imin ips (Cleared ip) (now, log, rl) = True"

definition remembers :: "ip_addr \<Rightarrow> tracked \<Rightarrow> bool" where
  "remembers ip s =
    (case s of (now, log, rl) \<Rightarrow>
       sorted (failures_of ip log) \<and> (\<forall>t \<in> set (failures_of ip log). t \<le> now) \<and>
       (\<exists>old. failures_of ip log = old @ deque_of ip rl \<and> (\<forall>t \<in> set old. t < now - rl_window rl)))"

fun tracked_inv :: "ip_addr list \<Rightarrow> tracked \<Rightarrow> bool" where
  "tracked_inv ips (now, log, rl) =
    (keys_distinct rl \<and> length ips \<le> rl_max_entries rl \<and> fst ` set (rl_failures rl) \<subseteq> set ips \<and>
     (\<forall>ip. remembers ip (now, log, rl)))"

lemma failures_of_simps [simp]:
  "failures_of ip [] = []"
  "failures_of ip (log @ [(i, t)]) = failures_of ip log @ (if i = ip then [t] else [])"
  "failures_of ip (filter (\<lambda>(i, t). i \<noteq> ip') log) = (if ip = ip' then [] else failures_of ip log)"
  by (auto simp: failures_of_def filter_empty_conv intro!: arg_cong [of _ _ "map snd"] filter_cong)

lemma room_for_all:
  assumes "keys_distinct rl" "length ips \<le> rl_max_entries rl" "fst ` set (rl_failures rl) \<subseteq> set ips"
    "ip \<in> set ips"
  shows "evict_if_full order ip rl = rl_failures rl"
proof (cases "map_of (rl_failures rl) ip")
  case None
  then have ni: "ip \<notin> fst ` set (rl_failures rl)"
    by (simp add: map_of_eq_None_iff)
  have "insert ip (fst ` set (rl_failures rl)) \<subseteq> set ips"
    using assms by simp
  then have "card (insert ip (fst ` set (rl_failures rl))) \<le> card (set ips)"
    by (simp add: card_mono)
  moreover have "card (fst ` set (rl_failures rl)) = length (rl_failures rl)"
    using assms(1) distinct_card [of "map fst (rl_failures rl)"] by (simp add: keys_distinct_def)
  ultimately have "length (rl_failures rl) < rl_max_entries rl"
    using ni assms(2) card_length [of ips] by simp
  then show ?thesis
    by (simp add: evict_if_full_def)
qed (simp add: evict_known)

lemma prune_Nil [simp]: "prune imin t1 t2 [] w = []"
  by (simp add: prune_def)

lemma deque_of_record:
  "evict_if_full order ip rl = rl_failures rl \<Longrightarrow>
   deque_of i (record_failure order imin t1 t2 t3 ip rl) =
     (if i = ip then prune imin t1 t2 (deque_of ip rl) (rl_window rl) @ [t3] else deque_of i rl)"
  by (simp add: deque_of_def record_failure_def update_conv' Let_def)

lemma deque_of_check:
  "deque_of i (snd (is_throttled imin t1 t2 ip rl)) =
     (if i = ip then prune imin t1 t2 (deque_of ip rl) (rl_window rl) else deque_of i rl)"
  by (auto simp: deque_of_def is_throttled_def update_conv' Let_def split: option.split)

lemma deque_of_reset: "deque_of i (reset ip rl) = (if i = ip then [] else deque_of i rl)"
  by (simp add: deque_of_def reset_def delete_conv')

lemma dom_step:
  "fst ` set (rl_failures rl) \<subseteq> set ips \<Longrightarrow> timely imin ips e (now, log, rl) \<Longrightarrow>
   keys_distinct rl \<Longrightarrow> length ips \<le> rl_max_entries rl \<Longrightarrow>
   fst ` set (rl_failures (rl_step order imin e rl)) \<subseteq> set ips"
  by (cases e)
     (auto simp: record_failure_def is_throttled_def reset_def Let_def dom_update room_for_all
       dest!: subsetD [OF dom_delete_subset] split: option.splits
       dest!: map_of_SomeD intro: subsetD [OF _ image_eqI [of _ fst "(_, _)"]])

lemma suffix_pruned:
  assumes "xs = old @ d" "\<forall>t \<in> set old. t < c'" "c' \<le> c"
  shows "\<exists>old'. xs = old' @ pop_front_before c d \<and> (\<forall>t \<in> set old'. t < c)"
proof -
  obtain o2 where "d = o2 @ pop_front_before c d" "\<forall>t \<in> set o2. t < c"
    using pop_front_before_suffix [of d c] by blast
  then have "xs = (old @ o2) @ pop_front_before c d" "\<forall>t \<in> set (old @ o2). t < c"
    using assms by auto
  then show ?thesis by blast
qed

text \<open>Pruning at a later time, and time passing, keep the deque a recent suffix.\<close>

lemma remembers_later:
  assumes "remembers ip (now, log, rl)" "now \<le> t1" "t1 \<le> now'" "rl_window rl' = rl_window rl"
    and "deque_of ip rl' = deque_of ip rl \<or>
      deque_of ip rl' = pop_front_before (t1 - rl_window rl) (deque_of ip rl)"
  shows "remembers ip (now', log, rl')"
proof -
  obtain old where old: "failures_of ip log = old @ deque_of ip rl" "\<forall>t \<in> set old. t < now - rl_window rl"
    using assms(1) by (auto simp: remembers_def)
  have "\<exists>old'. failures_of ip log = old' @ deque_of ip rl' \<and> (\<forall>t \<in> set old'. t < t1 - rl_window rl)"
    using assms(5)
  proof
    assume "deque_of ip rl' = deque_of ip rl"
    with old assms(2) show ?thesis by fastforce
  next
    assume "deque_of ip rl' = pop_front_before (t1 - rl_window rl) (deque_of ip rl)"
    with suffix_pruned [OF old, of "t1 - rl_window rl"] assms(2) show ?thesis by simp
  qed
  then obtain old' where "failures_of ip log = old' @ deque_of ip rl'" "\<forall>t \<in> set old'. t < t1 - rl_window rl"
    by blast
  moreover have "\<forall>t \<in> set (failures_of ip log). t \<le> now'"
    using assms(1-3) by (fastforce simp: remembers_def)
  ultimately show ?thesis
    using assms(1,3,4) by (force simp: remembers_def)
qed

lemma remembers_new:
  assumes "remembers ip (now, log, rl)" "now \<le> t" "deque_of ip rl' = deque_of ip rl @ [t]"
    "rl_window rl' = rl_window rl"
  shows "remembers ip (t, log @ [(ip, t)], rl')"
proof -
  obtain old where "failures_of ip log = old @ deque_of ip rl" "\<forall>u \<in> set old. u < now - rl_window rl"
    using assms(1) by (auto simp: remembers_def)
  moreover from this(2) have "\<forall>u \<in> set old. u < t - rl_window rl"
    using assms(2) by fastforce
  ultimately have "\<exists>old. failures_of ip (log @ [(ip, t)]) = old @ deque_of ip rl' \<and>
      (\<forall>u \<in> set old. u < t - rl_window rl')"
    using assms(3,4) by (intro exI [of _ old]) simp
  moreover have "sorted (failures_of ip log @ [t])" "\<forall>u \<in> set (failures_of ip log @ [t]). u \<le> t"
    using assms(1,2) by (fastforce simp: remembers_def sorted_append)+
  ultimately show ?thesis
    by (simp add: remembers_def)
qed

lemma tracked_keeps:
  assumes "tracked_inv ips (now, log, rl)" "timely imin ips e (now, log, rl)"
  shows "tracked_inv ips (tracked_step order imin e (now, log, rl))"
proof -
  let ?rl = "rl_step order imin e rl"
  have room: "evict_if_full order ip rl = rl_failures rl" if "ip \<in> set ips" for ip
    using assms(1) that by (intro room_for_all) auto
  have "remembers i (time_after e now, log_step e log, ?rl)" for i
  proof -
    have i: "remembers i (now, log, rl)"
      using assms(1) by simp
    show ?thesis
    proof (cases e)
      case (Failed ip t1 t2 t3)
      then have ip: "ip \<in> set ips" "now \<le> t1" "t1 \<le> t3" "imin \<le> t1 - rl_window rl"
        using assms(2) by auto
      let ?p = "rl\<lparr>rl_failures := [(i, pop_front_before (t1 - rl_window rl) (deque_of i rl))]\<rparr>"
      show ?thesis
      proof (cases "i = ip")
        case True
        have p: "deque_of i ?p = pop_front_before (t1 - rl_window rl) (deque_of i rl)"
          by (simp add: deque_of_def)
        then have "remembers i (t1, log, ?p)"
          using remembers_later [OF i ip(2) order_refl, of ?p] by simp
        moreover have "deque_of i ?rl = deque_of i ?p @ [t3]"
          using p ip True by (simp add: Failed deque_of_record room prune_in_range)
        moreover have "rl_window ?rl = rl_window ?p"
          by simp
        ultimately have "remembers i (t3, log @ [(i, t3)], ?rl)"
          using remembers_new [of i t1 log ?p t3 ?rl] ip(3) by blast
        then show ?thesis
          using True by (simp add: Failed)
      next
        case False
        have "deque_of i ?rl = deque_of i rl"
          using ip(1) False by (simp add: Failed deque_of_record room)
        then have "remembers i (t3, log, ?rl)"
          using remembers_later [OF i ip(2,3), of ?rl] by simp
        then show ?thesis
          using False by (simp add: Failed remembers_def)
      qed
    next
      case (Checked ip t1 t2)
      then show ?thesis
        using remembers_later [OF i, of t1 t2 ?rl] assms(2)
        by (simp add: deque_of_check prune_in_range)
    next
      case (Cleared ip)
      show ?thesis
        using i by (auto simp: Cleared remembers_def deque_of_reset)
    qed
  qed
  moreover have "keys_distinct ?rl"
    using assms(1) by (simp add: rl_step_keys_distinct)
  ultimately show ?thesis
    using assms dom_step [of rl ips imin e now log order] by simp
qed

interpretation tracked: guarded_machine "tracked_step order imin" "timely imin ips" "tracked_inv ips"
  for order imin ips
proof
  fix s e
  assume "tracked_inv ips s" "timely imin ips e s"
  then show "tracked_inv ips (tracked_step order imin e s)"
    by (cases s) (rule_tac t = s in subst, simp, metis tracked_keeps)
qed

text \<open>The verdict of the limiter in a state that remembers what it should.\<close>

lemma verdict_in_window:
  assumes "remembers ip (now, log, rl)" "now \<le> t1" "imin \<le> t1 - rl_window rl" "0 < rl_max_failures rl"
  shows "fst (is_throttled imin t1 t2 ip rl) \<longleftrightarrow>
    rl_max_failures rl \<le> length (filter (\<lambda>t. t1 - rl_window rl \<le> t) (failures_of ip log))"
proof -
  let ?c = "t1 - rl_window rl"
  obtain old where old: "failures_of ip log = old @ deque_of ip rl" "\<forall>t \<in> set old. t < now - rl_window rl"
    using assms(1) by (auto simp: remembers_def)
  then have "filter (\<lambda>t. ?c \<le> t) old = []"
    using assms(2) by (fastforce simp: filter_empty_conv)
  moreover have "sorted (deque_of ip rl)"
    using assms(1) old(1) by (simp add: remembers_def sorted_append)
  ultimately have "pop_front_before ?c (deque_of ip rl) = filter (\<lambda>t. ?c \<le> t) (failures_of ip log)"
    by (simp add: old(1) pop_front_before_sorted)
  moreover have "fst (is_throttled imin t1 t2 ip rl) \<longleftrightarrow>
      rl_max_failures rl \<le> length (pop_front_before ?c (deque_of ip rl))"
    using assms(3,4) by (auto simp: is_throttled_def deque_of_def prune_in_range Let_def split: option.split)
  ultimately show ?thesis by simp
qed

lemma tracked_limits:
  "snd (snd (fold (tracked_step order imin) es (now, log, rl))) = fold (rl_step order imin) es rl"
  "fst (snd (fold (tracked_step order imin) es (now, log, rl))) = fold log_step es log"
  "fst (fold (tracked_step order imin) es (now, log, rl)) = fold time_after es now"
  by (induction es arbitrary: now log rl) auto

lemma fold_rl_limits [simp]:
  "rl_window (fold (rl_step order imin) es rl) = rl_window rl"
  "rl_max_failures (fold (rl_step order imin) es rl) = rl_max_failures rl"
  "rl_max_entries (fold (rl_step order imin) es rl) = rl_max_entries rl"
  by (induction es arbitrary: rl) simp_all

lemma fresh_inv:
  "length ips \<le> me \<Longrightarrow> tracked_inv ips (now, [], rate_limiter_new w mf me)"
  by (simp add: rate_limiter_new_def keys_distinct_def remembers_def deque_of_def)

lemma fresh_bounded: "\<forall>m. set (order m) = set m \<Longrightarrow> bounded_inv order (rate_limiter_new w mf me)"
  by (simp add: rate_limiter_new_def bounded_inv_def keys_distinct_def)

lemma rate_limiter_new_sel [simp]:
  "rl_window (rate_limiter_new w mf me) = w"
  "rl_max_failures (rate_limiter_new w mf me) = mf"
  "rl_max_entries (rate_limiter_new w mf me) = me"
  "rl_failures (rate_limiter_new w mf me) = []"
  by (simp_all add: rate_limiter_new_def)

end
