(* ===== verification/RateLimiterProps.thy ===== *)
theory RateLimiterProps
  imports RateLimiter
begin

text \<open>
  What the rate limiter guarantees: a throttling verdict is a count of recent failures,
  the map is bounded as long as addresses are not asked about, a full map gives up the
  address whose last failure is oldest, and one address does not affect another. The last
  section states where it falls short: checks leave empty entries that defeat the bound, and a
  clock younger than the window makes it forget everything.
\<close>

section \<open>Correctness\<close>

text \<open>
  C10: the limiter implements a sliding window. After any run of failures, checks and
  successes in clock order, over addresses that fit in the map, an address is throttled
  exactly when the number of its failures since its last success that lie within the
  window is at least the maximum, provided the maximum is not zero and the clock is not
  younger than the window (the instant one window ago can be represented). With a younger
  clock a check forgets every failure, and with a maximum of zero an address without a record is
  let in.
\<close>

theorem throttled_iff_failures_in_window:
  assumes "allowed (timely imin ips) (tracked_step order imin) es (start, [], rate_limiter_new w mf me)"
    and "length ips \<le> me" and "0 < mf"
    and "fold time_after es start \<le> t1" and "imin \<le> t1 - w"
  shows "fst (is_throttled imin t1 t2 ip (fold (rl_step order imin) es (rate_limiter_new w mf me))) \<longleftrightarrow>
    mf \<le> length (filter (\<lambda>t. t1 - w \<le> t) (failures_of ip (fold log_step es [])))"
proof -
  let ?s = "fold (tracked_step order imin) es (start, [], rate_limiter_new w mf me)"
  have "tracked_inv ips ?s"
    using assms(1,2) by (intro tracked.run_keeps fresh_inv)
  moreover have "?s = (fold time_after es start, fold log_step es [],
      fold (rl_step order imin) es (rate_limiter_new w mf me))"
    using tracked_limits [of order imin es start "[]"] by (simp add: prod_eq_iff)
  ultimately have "remembers ip (fold time_after es start, fold log_step es [],
      fold (rl_step order imin) es (rate_limiter_new w mf me))"
    by simp
  from verdict_in_window [OF this assms(4)] show ?thesis
    using assms(3,5) by simp
qed

theorem throttled_iff_failures_in_window_witness:
  "fst (is_throttled 0 115 115 (V4 1)
     (fold (rl_step id 0)
       [Failed (V4 1) 60 60 60, Failed (V4 1) 100 100 100, Checked (V4 1) 101 101, Failed (V4 1) 110 110 110]
       (rate_limiter_new 20 2 5))) \<longleftrightarrow>
   2 \<le> length (filter (\<lambda>t. 115 - 20 \<le> t)
     (failures_of (V4 1) (fold log_step
       [Failed (V4 1) 60 60 60, Failed (V4 1) 100 100 100, Checked (V4 1) 101 101, Failed (V4 1) 110 110 110] [])))"
  by (rule throttled_iff_failures_in_window [where ips = "[V4 1]" and start = 0])
     simp_all

text \<open>
  C25: recording failures and clearing addresses, in any order and number and whatever the
  clock says, keeps the map within its limit, counting a limit of zero as one.
\<close>

theorem map_bounded_without_checks:
  assumes "\<forall>m. set (order m) = set m" and "\<forall>ip t1 t2. Checked ip t1 t2 \<notin> set es"
  shows "length (rl_failures (fold (rl_step order imin) es (rate_limiter_new w mf me))) \<le> max 1 me"
proof -
  have "not_a_check e s" if "e \<in> set es" for e s
    using assms(2) that by (cases e) auto
  then have "bounded_inv order (fold (rl_step order imin) es (rate_limiter_new w mf me))"
    using assms(1) by (intro bounded.run_keeps_always fresh_bounded)
  then show ?thesis
    by (simp add: bounded_inv_def)
qed

theorem map_bounded_without_checks_witness:
  "length (rl_failures (fold (rl_step id 0) [Failed (V4 1) 1 1 1, Failed (V4 2) 2 2 2, Cleared (V4 1)]
    (rate_limiter_new 20 2 1))) \<le> max 1 1"
  by (rule map_bounded_without_checks) simp_all

text \<open>
  C37: when the failure of an address without an entry is recorded in a full map in which some
  entry has failures, exactly one address is evicted, it has failures, no other address with
  failures has an older last failure, and the new address gets an entry with this failure
  alone; every other entry is kept as it was.
\<close>

theorem eviction_drops_oldest:
  assumes "\<forall>m. set (order m) = set m" and "keys_distinct rl"
    and "map_of (rl_failures rl) ip = None" and "rl_max_entries rl \<le> length (rl_failures rl)"
    and "\<exists>(i, d) \<in> set (rl_failures rl). d \<noteq> []"
  shows "\<exists>old d. (old, d) \<in> set (rl_failures rl) \<and> d \<noteq> [] \<and>
    (\<forall>(i, d') \<in> set (rl_failures rl). d' \<noteq> [] \<longrightarrow> last d \<le> last d') \<and>
    map_of (rl_failures (record_failure order imin t1 t2 t3 ip rl)) =
      ((map_of (rl_failures rl))(old := None))(ip \<mapsto> [t3])"
proof -
  obtain old where old: "find_oldest_entry (order (rl_failures rl)) = Some old"
    using assms(1,5) find_oldest_entry_None [of "order (rl_failures rl)"]
    by (cases "find_oldest_entry (order (rl_failures rl))") auto
  then obtain d where d: "(old, d) \<in> set (rl_failures rl)" "d \<noteq> []"
    "\<forall>(i, d') \<in> set (rl_failures rl). d' \<noteq> [] \<longrightarrow> last d \<le> last d'"
    using find_oldest_entry_Some [OF old] assms(1) by auto
  have e: "evict_if_full order ip rl = AList.delete old (rl_failures rl)"
    using assms(3,4) old by (simp add: evict_if_full_def)
  have "map_of (AList.delete old (rl_failures rl)) ip = None"
    using assms(3) by (simp add: delete_conv')
  then have "map_of (rl_failures (record_failure order imin t1 t2 t3 ip rl)) =
      ((map_of (rl_failures rl))(old := None))(ip \<mapsto> [t3])"
    by (simp add: record_failure_def e Let_def update_conv' delete_conv')
  with d show ?thesis by blast
qed

theorem eviction_drops_oldest_witness:
  "map_of (rl_failures (record_failure id 0 30 30 30 (V4 3)
     ((rate_limiter_new 20 2 2)\<lparr>rl_failures := [(V4 1, [5]), (V4 2, [3])]\<rparr>))) =
   [V4 1 \<mapsto> [5], V4 3 \<mapsto> [30]]"
proof -
  let ?rl = "(rate_limiter_new 20 2 2)\<lparr>rl_failures := [(V4 1, [5]), (V4 2, [3])]\<rparr>"
  have "\<exists>old d. (old, d) \<in> set (rl_failures ?rl) \<and> d \<noteq> [] \<and>
      (\<forall>(i, d') \<in> set (rl_failures ?rl). d' \<noteq> [] \<longrightarrow> last d \<le> last d') \<and>
      map_of (rl_failures (record_failure id 0 30 30 30 (V4 3) ?rl)) =
        ((map_of (rl_failures ?rl))(old := None))(V4 3 \<mapsto> [30])"
    by (rule eviction_drops_oldest) (simp_all add: keys_distinct_def)
  then show ?thesis by (auto simp: fun_eq_iff)
qed

text \<open>
  A success wipes the record of its own address and of no other: the address is not
  throttled until it fails again, and every other verdict is what it was.
\<close>

theorem reset_clears_only_its_address:
  "\<not> fst (is_throttled imin t1 t2 ip (reset ip rl)) \<and>
   (i \<noteq> ip \<longrightarrow> fst (is_throttled imin t1 t2 i (reset ip rl)) = fst (is_throttled imin t1 t2 i rl))"
  by (auto simp: is_throttled_def reset_def delete_conv' Let_def split: option.split)

theorem reset_clears_only_its_address_witness:
  "fst (is_throttled 0 9 9 (V4 2) (reset (V4 1) ((rate_limiter_new 20 1 2)\<lparr>rl_failures := [(V4 1, [5]), (V4 2, [3])]\<rparr>)))
    = fst (is_throttled 0 9 9 (V4 2) ((rate_limiter_new 20 1 2)\<lparr>rl_failures := [(V4 1, [5]), (V4 2, [3])]\<rparr>))"
  using reset_clears_only_its_address [of 0 9 9 "V4 1"
      "(rate_limiter_new 20 1 2)\<lparr>rl_failures := [(V4 1, [5]), (V4 2, [3])]\<rparr>" "V4 2"]
  by simp

section \<open>Where it falls short\<close>

text \<open>
  The limit on the map does not hold. Asking about an address whose failures have left
  the window leaves an entry with no failures, eviction passes over such entries, and so the
  map takes one entry for every address that failed once and was asked about later, however
  small its limit is.
\<close>

theorem checks_defeat_map_bound:
  assumes "\<forall>m. set (order m) = set m" and "distinct ips" and "0 \<le> w" and "imin \<le> t"
  shows "length (rl_failures (fold (rl_step order imin) (spread w t ips) (rate_limiter_new w mf me))) =
    length ips"
  using spread_grows [of "rate_limiter_new w mf me" order ips imin t] assms
  by (simp add: hollow_def keys_distinct_def)

theorem checks_defeat_map_bound_witness:
  "length (rl_failures (fold (rl_step id 0) (spread 60 0 [V4 1, V4 2, V4 3]) (rate_limiter_new 60 10 1))) =
    length [V4 1, V4 2, V4 3]"
  by (rule checks_defeat_map_bound) simp_all

text \<open>
  While the clock is younger than the window, so that the cutoff cannot be represented,
  the current time is used instead and a check forgets every earlier failure: no address is
  throttled whatever its record.
\<close>

theorem young_clock_forgets:
  assumes "t1 - rl_window rl < imin" and "\<forall>t \<in> set (deque_of ip rl). t < t2" and "0 < rl_max_failures rl"
  shows "\<not> fst (is_throttled imin t1 t2 ip rl) \<and> deque_of ip (snd (is_throttled imin t1 t2 ip rl)) = []"
  using assms by (auto simp: is_throttled_def deque_of_def prune_underflow pop_front_before_all Let_def
      update_conv' split: option.splits)

theorem young_clock_forgets_witness:
  "\<not> fst (is_throttled 0 30 30 (V4 1) ((rate_limiter_new 60 2 5)\<lparr>rl_failures := [(V4 1, [5, 6, 7])]\<rparr>))"
  using young_clock_forgets [of 30 "(rate_limiter_new 60 2 5)\<lparr>rl_failures := [(V4 1, [5, 6, 7])]\<rparr>" 0 "V4 1" 30]
  by (simp add: deque_of_def)

end
