(* ===== verification/Accounts.thy ===== *)
theory Accounts
  imports Core "HOL-Library.List_Lexorder"
begin

text \<open>
  The account types and the account store of \<open>crates/liaozhai-auth\<close>
  (\<open>account.rs\<close>, \<open>params.rs\<close>, \<open>store.rs\<close>). The \<open>accounts\<close> table is a
  list of rows in insertion order; each SQL statement of the source is one operation on it,
  with an argument for a database failure other than a violated constraint. What comes from
  other crates is the record \<open>services\<close>: argon2 with its PHC strings, the text form of
  a \<open>Uuid\<close>, the key by which SQLite's \<open>NOCASE\<close> compares text, and the text of
  the error for a blocking task that panicked. The mutex is a flag that a panic under the
  lock sets.
\<close>

section \<open>Accounts and parameters\<close>

record account =
  acc_id :: account_id
  acc_username :: ustr
  acc_created_at :: int
  acc_last_login_at :: "int option"

definition account_from_row :: "account_id \<Rightarrow> ustr \<Rightarrow> int \<Rightarrow> int option \<Rightarrow> account" where
  "account_from_row i username created_at last_login_at =
    \<lparr>acc_id = i, acc_username = username, acc_created_at = created_at,
     acc_last_login_at = last_login_at\<rparr>"

text \<open>
  Seconds since the epoch as an \<open>i64\<close>: \<open>duration_since\<close> fails (and the program
  panics) before the epoch, and \<open>as i64\<close> wraps the \<open>u64\<close>.
\<close>

definition unix_now :: "int \<Rightarrow> int option" where
  "unix_now clock = (if clock < 0 then None else Some (sint (word_of_int clock :: u64)))"

definition account_new :: "uuid \<Rightarrow> int \<Rightarrow> ustr \<Rightarrow> account option" where
  "account_new fresh clock username =
    map_option (\<lambda>now. account_from_row (account_id_new fresh) username now None) (unix_now clock)"

record argon2_params =
  m_cost :: u32
  t_cost :: u32
  p_cost :: u32

definition argon2_params_new :: "u32 \<Rightarrow> u32 \<Rightarrow> u32 \<Rightarrow> argon2_params" where
  "argon2_params_new m t p = \<lparr>m_cost = m, t_cost = t, p_cost = p\<rparr>"

definition test_fast :: argon2_params where
  "test_fast = \<lparr>m_cost = 256, t_cost = 1, p_cost = 1\<rparr>"

definition argon2_params_default :: argon2_params where
  "argon2_params_default =
    \<lparr>m_cost = DEFAULT_ARGON2_MEMORY_COST, t_cost = DEFAULT_ARGON2_TIME_COST,
     p_cost = DEFAULT_ARGON2_PARALLELISM\<rparr>"

section \<open>Other crates\<close>

record ('p, 'h) services =
  params_new :: "u32 \<Rightarrow> u32 \<Rightarrow> u32 \<Rightarrow> ustr + 'p"
  hash_password :: "'p \<Rightarrow> bytes \<Rightarrow> ustr \<Rightarrow> ustr + ustr"
  parse_phc :: "ustr \<Rightarrow> ustr + 'h"
  verify_password :: "bytes \<Rightarrow> 'h \<Rightarrow> bool"
  uuid_text :: "uuid \<Rightarrow> ustr"
  parse_uuid :: "ustr \<Rightarrow> ustr + uuid"
  nocase_key :: "ustr \<Rightarrow> ustr"
  join_error :: ustr

text \<open>
  What the program relies on: a \<open>Uuid\<close> is read back from its text, and a hash argon2
  produced can be parsed and accepts the password it was made from.
\<close>

definition services_ok :: "('p, 'h) services \<Rightarrow> bool" where
  "services_ok svc =
    ((\<forall>u. parse_uuid svc (uuid_text svc u) = Inr u) \<and>
     (\<forall>p pw salt h. hash_password svc p pw salt = Inr h \<longrightarrow>
       (\<exists>ph. parse_phc svc h = Inr ph \<and> verify_password svc pw ph)))"

definition to_argon2_params :: "('p, 'h) services \<Rightarrow> argon2_params \<Rightarrow> ustr + 'p" where
  "to_argon2_params svc ps = params_new svc (m_cost ps) (t_cost ps) (p_cost ps)"

definition generate_hash :: "('p, 'h) services \<Rightarrow> ustr \<Rightarrow> ustr \<Rightarrow> argon2_params \<Rightarrow> error + ustr" where
  "generate_hash svc salt password ps =
    and_then (map_err (\<lambda>e. Auth (lit ''invalid argon2 params: '' @ e)) (to_argon2_params svc ps))
      (\<lambda>p. map_err (\<lambda>e. Auth (lit ''hashing password: '' @ e))
        (hash_password svc p (encode password) salt))"

section \<open>The table and its statements\<close>

record row =
  row_id :: ustr
  row_username :: ustr
  row_hash :: ustr
  row_created_at :: int
  row_last_login_at :: "int option"

datatype insert_error = ConstraintViolation | InsertFailed ustr
datatype query_error = NoRows | QueryFailed ustr

definition sql_insert :: "('p, 'h) services \<Rightarrow> ustr option \<Rightarrow> row \<Rightarrow> row list \<Rightarrow> insert_error + row list" where
  "sql_insert svc fault r rows =
    (case fault of
       Some e \<Rightarrow> Inl (InsertFailed e)
     | None \<Rightarrow>
         if list_ex (\<lambda>s. row_id s = row_id r \<or>
              nocase_key svc (row_username s) = nocase_key svc (row_username r)) rows
         then Inl ConstraintViolation
         else Inr (rows @ [r]))"

definition sql_select_user :: "('p, 'h) services \<Rightarrow> ustr option \<Rightarrow> ustr \<Rightarrow> row list \<Rightarrow> query_error + row" where
  "sql_select_user svc fault username rows =
    (case fault of
       Some e \<Rightarrow> Inl (QueryFailed e)
     | None \<Rightarrow>
         (case find (\<lambda>r. nocase_key svc (row_username r) = nocase_key svc username) rows of
            None \<Rightarrow> Inl NoRows
          | Some r \<Rightarrow> Inr r))"

definition sql_update_login :: "ustr option \<Rightarrow> int \<Rightarrow> ustr \<Rightarrow> row list \<Rightarrow> ustr + row list" where
  "sql_update_login fault now i rows =
    (case fault of
       Some e \<Rightarrow> Inl e
     | None \<Rightarrow> Inr (map (\<lambda>r. if row_id r = i then r\<lparr>row_last_login_at := Some now\<rparr> else r) rows))"

definition sql_rows_by_username :: "('p, 'h) services \<Rightarrow> row list \<Rightarrow> row list" where
  "sql_rows_by_username svc rows = sort_key (\<lambda>r. nocase_key svc (row_username r)) rows"

section \<open>The store\<close>

record store =
  st_rows :: "row list"
  st_params :: argon2_params
  st_dummy_hash :: ustr
  st_poisoned :: bool

definition join_failed :: "('p, 'h) services \<Rightarrow> error" where
  "join_failed svc = Auth (lit ''spawn_blocking failed: '' @ join_error svc)"

text \<open>
  \<open>open\<close>: the directory of the path, when it is named, is created first. The
  arguments are the parent of the path, the failures of the three steps, if any, and the
  rows already in the file.
\<close>

definition store_open :: "('p, 'h) services \<Rightarrow> ustr option \<Rightarrow> ustr option \<Rightarrow> ustr option \<Rightarrow> ustr option
    \<Rightarrow> row list \<Rightarrow> ustr \<Rightarrow> argon2_params \<Rightarrow> error + store" where
  "store_open svc parent mkdir_fault open_fault schema_fault rows salt ps =
    (case (if parent \<noteq> None \<and> parent \<noteq> Some [] then mkdir_fault else None) of
       Some e \<Rightarrow> Inl (Auth (lit ''creating database directory: '' @ e))
     | None \<Rightarrow>
         (case open_fault of
            Some e \<Rightarrow> Inl (Auth (lit ''opening database: '' @ e))
          | None \<Rightarrow>
              (case schema_fault of
                 Some e \<Rightarrow> Inl (Auth (lit ''creating schema: '' @ e))
               | None \<Rightarrow>
                   and_then (generate_hash svc salt (lit ''dummy_password_for_timing'') ps)
                     (\<lambda>dummy. Inr \<lparr>st_rows = rows, st_params = ps, st_dummy_hash = dummy,
                                   st_poisoned = False\<rparr>))))"

text \<open>
  \<open>create_account\<close>: the hash, the id and the time are made before the lock is taken.
  Any violated constraint is reported as a taken username.
\<close>

definition create_account :: "('p, 'h) services \<Rightarrow> int \<Rightarrow> ustr \<Rightarrow> uuid \<Rightarrow> ustr option \<Rightarrow> ustr \<Rightarrow> ustr
    \<Rightarrow> store \<Rightarrow> (error + account) \<times> store" where
  "create_account svc clock salt fresh fault username password st =
    (case generate_hash svc salt password (st_params st) of
       Inl e \<Rightarrow> (Inl e, st)
     | Inr password_hash \<Rightarrow>
         let i = account_id_new fresh in
         (case unix_now clock of
            None \<Rightarrow> (Inl (join_failed svc), st)
          | Some now \<Rightarrow>
              if st_poisoned st then (Inl (join_failed svc), st)
              else
                (case sql_insert svc fault
                    \<lparr>row_id = account_id_display (uuid_text svc) i, row_username = username,
                     row_hash = password_hash, row_created_at = now, row_last_login_at = None\<rparr>
                    (st_rows st) of
                   Inl ConstraintViolation \<Rightarrow>
                     (Inl (Auth (lit ''Account '' @ [39] @ username @ [39] @ lit '' already exists'')), st)
                 | Inl (InsertFailed e) \<Rightarrow> (Inl (Auth (lit ''creating account: '' @ e)), st)
                 | Inr rows' \<Rightarrow>
                     (Inr (account_from_row i username now None), st\<lparr>st_rows := rows'\<rparr>))))"

text \<open>
  \<open>verify_credentials\<close> does not change the store. Beside the result it returns the
  parsed hashes argon2 was run against, which is the time it takes.
\<close>

definition verify_credentials :: "('p, 'h) services \<Rightarrow> ustr option \<Rightarrow> ustr \<Rightarrow> ustr \<Rightarrow> store
    \<Rightarrow> (error + account option) \<times> 'h list" where
  "verify_credentials svc fault username password st =
    (if st_poisoned st then (Inl (join_failed svc), [])
     else
       (case sql_select_user svc fault username (st_rows st) of
          Inr r \<Rightarrow>
            (case parse_phc svc (row_hash r) of
               Inl e \<Rightarrow> (Inl (Auth (lit ''parsing stored hash: '' @ e)), [])
             | Inr parsed \<Rightarrow>
                 if verify_password svc (encode password) parsed then
                   (case parse_uuid svc (row_id r) of
                      Inl e \<Rightarrow> (Inl (Auth (lit ''parsing account ID: '' @ e)), [parsed])
                    | Inr u \<Rightarrow>
                        (Inr (Some (account_from_row (account_id_from_uuid u) (row_username r)
                           (row_created_at r) (row_last_login_at r))), [parsed]))
                 else (Inr None, [parsed]))
        | Inl NoRows \<Rightarrow>
            (case parse_phc svc (st_dummy_hash st) of
               Inl e \<Rightarrow> (Inl (Auth (lit ''parsing dummy hash: '' @ e)), [])
             | Inr parsed \<Rightarrow> (Inr None, [parsed]))
        | Inl (QueryFailed e) \<Rightarrow> (Inl (Auth (lit ''querying account: '' @ e)), [])))"

text \<open>\<open>collect\<close> into a \<open>Result\<close>: the first error, or all the values.\<close>

fun collect_results :: "('a \<Rightarrow> 'e + 'b) \<Rightarrow> 'a list \<Rightarrow> 'e + 'b list" where
  "collect_results f [] = Inr []"
| "collect_results f (x # xs) =
    and_then (f x) (\<lambda>y. and_then (collect_results f xs) (\<lambda>ys. Inr (y # ys)))"

datatype list_stage = Preparing | Querying | Collecting

fun list_stage_text :: "list_stage \<Rightarrow> ustr" where
  "list_stage_text Preparing = lit ''preparing statement: ''"
| "list_stage_text Querying = lit ''querying accounts: ''"
| "list_stage_text Collecting = lit ''collecting accounts: ''"

definition list_accounts :: "('p, 'h) services \<Rightarrow> (list_stage \<times> ustr) option \<Rightarrow> store \<Rightarrow> error + account list" where
  "list_accounts svc fault st =
    (if st_poisoned st then Inl (join_failed svc)
     else
       (case fault of
          Some (stage, e) \<Rightarrow> Inl (Auth (list_stage_text stage @ e))
        | None \<Rightarrow>
            collect_results
              (\<lambda>r. map_err (\<lambda>e. Auth (lit ''parsing account ID: '' @ e))
                (and_then (parse_uuid svc (row_id r))
                  (\<lambda>u. Inr (account_from_row (account_id_from_uuid u) (row_username r)
                    (row_created_at r) (row_last_login_at r)))))
              (sql_rows_by_username svc (st_rows st))))"

text \<open>
  \<open>record_login\<close> reads the clock while it holds the lock: a clock before the epoch
  panics there and poisons the mutex.
\<close>

definition record_login :: "('p, 'h) services \<Rightarrow> int \<Rightarrow> ustr option \<Rightarrow> account_id \<Rightarrow> store
    \<Rightarrow> (error + unit) \<times> store" where
  "record_login svc clock fault i st =
    (if st_poisoned st then (Inl (join_failed svc), st)
     else
       (case unix_now clock of
          None \<Rightarrow> (Inl (join_failed svc), st\<lparr>st_poisoned := True\<rparr>)
        | Some now \<Rightarrow>
            (case sql_update_login fault now (account_id_display (uuid_text svc) i) (st_rows st) of
               Inl e \<Rightarrow> (Inl (Auth (lit ''recording login: '' @ e)), st)
             | Inr rows' \<Rightarrow> (Inr (), st\<lparr>st_rows := rows'\<rparr>))))"

section \<open>The invariant of the table\<close>

text \<open>
  No two rows share an id or a username up to the comparison of the column, every id is the
  text of a \<open>Uuid\<close>, and every stored hash, the dummy one too, can be parsed.
\<close>

definition row_ok :: "('p, 'h) services \<Rightarrow> row \<Rightarrow> bool" where
  "row_ok svc r = ((\<exists>u. row_id r = uuid_text svc u) \<and> is_ok (parse_phc svc (row_hash r)))"

definition store_ok :: "('p, 'h) services \<Rightarrow> store \<Rightarrow> bool" where
  "store_ok svc st =
    (services_ok svc \<and> distinct (map row_id (st_rows st)) \<and>
     distinct (map (\<lambda>r. nocase_key svc (row_username r)) (st_rows st)) \<and>
     (\<forall>r \<in> set (st_rows st). row_ok svc r) \<and> is_ok (parse_phc svc (st_dummy_hash st)))"

definition ready :: "('p, 'h) services \<Rightarrow> store \<Rightarrow> bool" where
  "ready svc st = (store_ok svc st \<and> \<not> st_poisoned st)"

definition account_of_row :: "('p, 'h) services \<Rightarrow> row \<Rightarrow> account" where
  "account_of_row svc r =
    account_from_row (AccountId (projr (parse_uuid svc (row_id r)))) (row_username r)
      (row_created_at r) (row_last_login_at r)"

lemma parse_row_id:
  "services_ok svc \<Longrightarrow> row_ok svc r \<Longrightarrow>
   parse_uuid svc (row_id r) = Inr (projr (parse_uuid svc (row_id r)))"
  by (auto simp: services_ok_def row_ok_def)

lemma uuid_text_inj: "services_ok svc \<Longrightarrow> uuid_text svc u = uuid_text svc v \<longleftrightarrow> u = v"
  by (metis services_ok_def Inr_inject)

lemma generate_hash_Inr:
  "services_ok svc \<Longrightarrow> generate_hash svc salt password ps = Inr h \<Longrightarrow>
   \<exists>ph. parse_phc svc h = Inr ph \<and> verify_password svc (encode password) ph"
  by (auto simp: generate_hash_def services_ok_def and_then_Inr_iff)

end
