(* ===== verification/AccountStore.thy ===== *)
theory AccountStore
  imports Accounts
begin

text \<open>
  How the statements of the account store act on a table that satisfies its invariant, and
  the contract of the store as the locale \<open>credential_store\<close>: what creating an
  account and verifying credentials promise to the session and the command line. The locale is
  interpreted on \<open>create_account\<close> and \<open>verify_credentials\<close>.
\<close>

section \<open>Statements on a good table\<close>

lemma sql_insert_Inr:
  "sql_insert svc fault r rows = Inr rows' \<longleftrightarrow>
    fault = None \<and> rows' = rows @ [r] \<and>
    (\<forall>s \<in> set rows. row_id s \<noteq> row_id r \<and>
      nocase_key svc (row_username s) \<noteq> nocase_key svc (row_username r))"
  by (auto simp: sql_insert_def list_ex_iff split: option.splits if_splits)

lemma find_unique:
  "distinct (map f rows) \<Longrightarrow> r \<in> set rows \<Longrightarrow> find (\<lambda>s. f s = f r) rows = Some r"
  by (induction rows) (auto simp: image_iff)

lemma find_append_other:
  "\<not> P r \<Longrightarrow> find P (rows @ [r]) = find P rows"
  by (induction rows) auto

lemma find_SomeD: "find P xs = Some x \<Longrightarrow> x \<in> set xs \<and> P x"
  by (induction xs) (auto split: if_splits)

lemma sql_select_InrD:
  "sql_select_user svc f u rows = Inr r \<Longrightarrow>
   r \<in> set rows \<and> nocase_key svc (row_username r) = nocase_key svc u"
  by (auto simp: sql_select_user_def dest: find_SomeD split: option.splits)

lemma sql_select_InrI:
  "distinct (map (\<lambda>r. nocase_key svc (row_username r)) rows) \<Longrightarrow> r \<in> set rows \<Longrightarrow>
   nocase_key svc (row_username r) = nocase_key svc u \<Longrightarrow> sql_select_user svc None u rows = Inr r"
  using find_unique [of "\<lambda>r. nocase_key svc (row_username r)" rows r]
  by (simp add: sql_select_user_def)

lemma sql_select_NoRows:
  "sql_select_user svc None u rows = Inl NoRows \<longleftrightarrow>
    (\<forall>r \<in> set rows. nocase_key svc (row_username r) \<noteq> nocase_key svc u)"
  using find_None_iff [of "\<lambda>r. nocase_key svc (row_username r) = nocase_key svc u" rows]
  by (cases "find (\<lambda>r. nocase_key svc (row_username r) = nocase_key svc u) rows")
     (auto simp: sql_select_user_def dest: find_SomeD)

lemma sql_select_cases:
  "(\<exists>r. sql_select_user svc None u rows = Inr r) \<or> sql_select_user svc None u rows = Inl NoRows"
  by (auto simp: sql_select_user_def split: option.splits)

lemma verify_known:
  assumes "ready svc st" "r \<in> set (st_rows st)" "nocase_key svc (row_username r) = nocase_key svc u"
    and "parse_phc svc (row_hash r) = Inr ph"
  shows "verify_credentials svc None u p st =
    (Inr (if verify_password svc (encode p) ph then Some (account_of_row svc r) else None), [ph])"
proof -
  have "sql_select_user svc None u (st_rows st) = Inr r"
    using assms(1-3) by (intro sql_select_InrI) (simp_all add: ready_def store_ok_def)
  moreover obtain i where "parse_uuid svc (row_id r) = Inr i"
    using assms(1,2) parse_row_id [of svc r] by (auto simp: ready_def store_ok_def)
  ultimately show ?thesis
    using assms(1,4)
    by (simp add: verify_credentials_def ready_def account_of_row_def account_id_from_uuid_def)
qed

lemma verify_unknown:
  assumes "ready svc st" "\<forall>r \<in> set (st_rows st). nocase_key svc (row_username r) \<noteq> nocase_key svc u"
  shows "\<exists>ph. parse_phc svc (st_dummy_hash st) = Inr ph \<and> verify_credentials svc None u p st = (Inr None, [ph])"
proof -
  have "sql_select_user svc None u (st_rows st) = Inl NoRows"
    using assms(2) by (simp add: sql_select_NoRows)
  moreover obtain ph where "parse_phc svc (st_dummy_hash st) = Inr ph"
    using assms(1) by (cases "parse_phc svc (st_dummy_hash st)") (simp_all add: ready_def store_ok_def)
  ultimately show ?thesis
    using assms(1) by (simp add: verify_credentials_def ready_def)
qed

lemma stored_hash_parses:
  "ready svc st \<Longrightarrow> r \<in> set (st_rows st) \<Longrightarrow> \<exists>ph. parse_phc svc (row_hash r) = Inr ph"
  by (cases "parse_phc svc (row_hash r)") (auto simp: ready_def store_ok_def row_ok_def)

section \<open>Creating an account\<close>

definition new_row :: "('p, 'h) services \<Rightarrow> uuid \<Rightarrow> ustr \<Rightarrow> ustr \<Rightarrow> int \<Rightarrow> row" where
  "new_row svc fresh username h now =
    \<lparr>row_id = uuid_text svc fresh, row_username = username, row_hash = h,
     row_created_at = now, row_last_login_at = None\<rparr>"

lemma create_account_Inr:
  "create_account svc clock salt fresh fault u p st = (Inr a, st') \<longleftrightarrow>
    (\<exists>h now. generate_hash svc salt p (st_params st) = Inr h \<and> unix_now clock = Some now \<and>
      \<not> st_poisoned st \<and> fault = None \<and>
      (\<forall>s \<in> set (st_rows st). row_id s \<noteq> uuid_text svc fresh \<and>
        nocase_key svc (row_username s) \<noteq> nocase_key svc u) \<and>
      a = account_from_row (AccountId fresh) u now None \<and>
      st' = st\<lparr>st_rows := st_rows st @ [new_row svc fresh u h now]\<rparr>)"
proof (cases "generate_hash svc salt p (st_params st)")
  case h: (Inr h)
  show ?thesis
  proof (cases "unix_now clock")
    case now: (Some now)
    have "create_account svc clock salt fresh fault u p st =
      (if st_poisoned st then (Inl (join_failed svc), st)
       else case sql_insert svc fault (new_row svc fresh u h now) (st_rows st) of
           Inl ConstraintViolation \<Rightarrow>
             (Inl (Auth (lit ''Account '' @ [39] @ u @ [39] @ lit '' already exists'')), st)
         | Inl (InsertFailed e) \<Rightarrow> (Inl (Auth (lit ''creating account: '' @ e)), st)
         | Inr rows' \<Rightarrow> (Inr (account_from_row (AccountId fresh) u now None), st\<lparr>st_rows := rows'\<rparr>))"
      by (simp add: create_account_def h now Let_def account_id_new_def account_id_display_def new_row_def)
    moreover have sel: "row_id (new_row svc fresh u h now) = uuid_text svc fresh"
      "row_username (new_row svc fresh u h now) = u"
      by (simp_all add: new_row_def)
    moreover have "(\<exists>rows'. sql_insert svc fault (new_row svc fresh u h now) (st_rows st) = Inr rows' \<and> P rows') \<longleftrightarrow>
        fault = None \<and> (\<forall>s \<in> set (st_rows st). row_id s \<noteq> uuid_text svc fresh \<and>
          nocase_key svc (row_username s) \<noteq> nocase_key svc u) \<and> P (st_rows st @ [new_row svc fresh u h now])"
      for P
      unfolding sql_insert_Inr sel by blast
    moreover have "create_account svc clock salt fresh fault u p st = (Inr a, st') \<longleftrightarrow> \<not> st_poisoned st \<and>
        (\<exists>rows'. sql_insert svc fault (new_row svc fresh u h now) (st_rows st) = Inr rows' \<and>
          a = account_from_row (AccountId fresh) u now None \<and> st' = st\<lparr>st_rows := rows'\<rparr>)"
      unfolding calculation(1)
      by (cases "sql_insert svc fault (new_row svc fresh u h now) (st_rows st)")
         (auto split: insert_error.splits)
    ultimately show ?thesis
      by (simp only: h now sum.inject option.inject ex_simps simp_thms)
  qed (simp add: create_account_def h)
qed (simp add: create_account_def)

lemma create_account_Inl:
  "create_account svc clock salt fresh fault u p st = (Inl e, st') \<Longrightarrow> st' = st"
  unfolding create_account_def Let_def
  by (auto split: sum.splits option.splits insert_error.splits if_splits)

lemma create_account_ready:
  assumes "ready svc st" "create_account svc clock salt fresh fault u p st = (res, st')"
  shows "ready svc st'"
proof (cases res)
  case (Inl e)
  then show ?thesis
    using create_account_Inl assms by metis
next
  case (Inr a)
  then obtain h now where h: "generate_hash svc salt p (st_params st) = Inr h"
    and fresh: "\<forall>s \<in> set (st_rows st). row_id s \<noteq> uuid_text svc fresh \<and>
      nocase_key svc (row_username s) \<noteq> nocase_key svc u"
    and st': "st' = st\<lparr>st_rows := st_rows st @ [new_row svc fresh u h now]\<rparr>"
    using assms(2) by (auto simp: create_account_Inr)
  have "is_ok (parse_phc svc h)"
    using generate_hash_Inr [OF _ h] assms(1) by (auto simp: ready_def store_ok_def)
  then have "row_ok svc (new_row svc fresh u h now)"
    by (auto simp: row_ok_def new_row_def)
  then show ?thesis
    using assms(1) fresh by (auto simp: ready_def store_ok_def st' new_row_def)
qed

lemma verify_created:
  assumes "ready svc st" "create_account svc clock salt fresh fault u p st = (Inr a, st')"
    and "nocase_key svc u' = nocase_key svc u"
  shows "fst (verify_credentials svc None u' p st') = Inr (Some a)"
proof -
  obtain h now where h: "generate_hash svc salt p (st_params st) = Inr h"
    and a: "a = account_from_row (AccountId fresh) u now None"
    and st': "st' = st\<lparr>st_rows := st_rows st @ [new_row svc fresh u h now]\<rparr>"
    using assms(2) by (auto simp: create_account_Inr)
  let ?r = "new_row svc fresh u h now"
  have rd: "ready svc st'"
    using assms(1,2) by (rule create_account_ready)
  then obtain ph where ph: "parse_phc svc h = Inr ph" "verify_password svc (encode p) ph"
    using generate_hash_Inr [OF _ h] by (auto simp: ready_def store_ok_def)
  have "account_of_row svc ?r = a"
    using rd by (simp add: a account_of_row_def new_row_def services_ok_def ready_def store_ok_def)
  moreover have "?r \<in> set (st_rows st')" "nocase_key svc (row_username ?r) = nocase_key svc u'"
    "parse_phc svc (row_hash ?r) = Inr ph"
    using ph assms(3) by (simp_all add: st' new_row_def)
  ultimately show ?thesis
    using verify_known [OF rd] ph(2) by simp
qed

lemma verify_other_user:
  assumes "create_account svc clock salt fresh fault u p st = (res, st')"
    and "nocase_key svc u' \<noteq> nocase_key svc u"
  shows "verify_credentials svc f u' p' st' = verify_credentials svc f u' p' st"
proof (cases res)
  case (Inl e)
  then show ?thesis
    using create_account_Inl assms by metis
next
  case (Inr a)
  then obtain h now where "st' = st\<lparr>st_rows := st_rows st @ [new_row svc fresh u h now]\<rparr>"
    using assms(1) by (auto simp: create_account_Inr)
  moreover have "sql_select_user svc f u' (st_rows st @ [new_row svc fresh u h now]) =
      sql_select_user svc f u' (st_rows st)"
    using assms(2) by (auto simp: sql_select_user_def find_append_other new_row_def cong: option.case_cong)
  ultimately show ?thesis
    by (simp add: verify_credentials_def split: sum.split query_error.split)
qed

lemma create_taken:
  assumes "r \<in> set (st_rows st)" "nocase_key svc (row_username r) = nocase_key svc u"
    and "create_account svc clock salt fresh fault u p st = (res, st')"
  shows "\<not> is_ok res \<and> st' = st"
proof (cases res)
  case (Inl e)
  then show ?thesis
    using create_account_Inl assms(3) by auto
next
  case (Inr a)
  then show ?thesis
    using assms by (auto simp: create_account_Inr)
qed

lemma verify_Some_row:
  assumes "fst (verify_credentials svc f u p st) = Inr (Some a)"
  shows "\<exists>r \<in> set (st_rows st). nocase_key svc (row_username r) = nocase_key svc u"
  using assms
  by (cases "sql_select_user svc f u (st_rows st)")
     (auto simp: verify_credentials_def dest!: sql_select_InrD split: if_splits sum.splits query_error.splits)

section \<open>The contract\<close>

text \<open>The database fault, the clock, the salt and the fresh id of a call are its context.\<close>

type_synonym create_context = "int \<times> ustr \<times> uuid \<times> ustr option"

fun create_in :: "('p, 'h) services \<Rightarrow> create_context \<Rightarrow> ustr \<Rightarrow> ustr \<Rightarrow> store
    \<Rightarrow> (error + account) \<times> store" where
  "create_in svc (clock, salt, fresh, fault) u p st = create_account svc clock salt fresh fault u p st"

definition verify_in :: "('p, 'h) services \<Rightarrow> ustr \<Rightarrow> ustr \<Rightarrow> store \<Rightarrow> error + account option" where
  "verify_in svc u p st = fst (verify_credentials svc None u p st)"

text \<open>Creating a batch of accounts one after the other, as an operator does.\<close>

fun create_all :: "('c \<Rightarrow> 'u \<Rightarrow> 'w \<Rightarrow> 's \<Rightarrow> ('e + 'a) \<times> 's) \<Rightarrow> ('c \<times> 'u \<times> 'w) list \<Rightarrow> 's
    \<Rightarrow> ('e + 'a) list \<times> 's" where
  "create_all create [] s = ([], s)"
| "create_all create ((c, u, w) # rest) s =
    (case create c u w s of (r, s') \<Rightarrow> apfst (Cons r) (create_all create rest s'))"

locale credential_store =
  fixes valid :: "'s \<Rightarrow> bool" and user_key :: "'u \<Rightarrow> 'k"
    and create :: "'c \<Rightarrow> 'u \<Rightarrow> 'w \<Rightarrow> 's \<Rightarrow> ('e + 'a) \<times> 's"
    and verify :: "'u \<Rightarrow> 'w \<Rightarrow> 's \<Rightarrow> 'e + 'a option"
  assumes create_valid: "valid s \<Longrightarrow> create c u w s = (r, s') \<Longrightarrow> valid s'"
    and create_then_verify: "valid s \<Longrightarrow> create c u w s = (Inr a, s') \<Longrightarrow>
      user_key u' = user_key u \<Longrightarrow> verify u' w s' = Inr (Some a)"
    and create_frame: "create c u w s = (r, s') \<Longrightarrow> user_key u' \<noteq> user_key u \<Longrightarrow>
      verify u' w' s' = verify u' w' s"
    and create_again: "verify u' w' s = Inr (Some a) \<Longrightarrow> user_key u = user_key u' \<Longrightarrow>
      create c u w s = (r, s') \<Longrightarrow> \<not> is_ok r \<and> s' = s"
begin

lemma verify_persists:
  "verify u w s = Inr (Some a) \<Longrightarrow> create_all create cs s = (rs, s') \<Longrightarrow>
   verify u w s' = Inr (Some a)"
proof (induction cs arbitrary: s rs)
  case (Cons x cs)
  obtain c u' w' where x: "x = (c, u', w')" by (cases x)
  obtain r s1 where c1: "create c u' w' s = (r, s1)" by fastforce
  have "verify u w s1 = Inr (Some a)"
  proof (cases "user_key u' = user_key u")
    case True
    from create_again [OF Cons.prems(1) True c1] Cons.prems(1) show ?thesis by simp
  next
    case False
    then show ?thesis
      using create_frame [OF c1, of u w] Cons.prems(1) by simp
  qed
  moreover obtain rs1 where "create_all create cs s1 = (rs1, s')"
    using Cons.prems(2) by (auto simp: x c1 apfst_def map_prod_def split: prod.splits)
  ultimately show ?case
    by (rule Cons.IH)
qed simp

lemma create_all_valid: "valid s \<Longrightarrow> create_all create cs s = (rs, s') \<Longrightarrow> valid s'"
proof (induction cs arbitrary: s rs)
  case (Cons x cs)
  then show ?case
    by (cases x) (auto simp: apfst_def map_prod_def dest: create_valid split: prod.splits)
qed simp

lemma all_created_verify:
  "valid s \<Longrightarrow> create_all create cs s = (rs, s') \<Longrightarrow> i < length cs \<Longrightarrow>
   cs ! i = (c, u, w) \<Longrightarrow> rs ! i = Inr a \<Longrightarrow> verify u w s' = Inr (Some a)"
proof (induction cs arbitrary: s rs i)
  case (Cons x cs)
  obtain c' u' w' where x: "x = (c', u', w')" by (cases x)
  obtain r s1 where c1: "create c' u' w' s = (r, s1)" by fastforce
  obtain rs1 where rest: "create_all create cs s1 = (rs1, s')" "rs = r # rs1"
    using Cons.prems(2) by (auto simp: x c1 apfst_def map_prod_def split: prod.splits)
  show ?case
  proof (cases i)
    case 0
    then have "create c u w s = (Inr a, s1)"
      using Cons.prems(4,5) x c1 rest(2) by simp
    then have "verify u w s1 = Inr (Some a)"
      using create_then_verify [OF Cons.prems(1)] by blast
    then show ?thesis
      using rest(1) by (rule verify_persists)
  next
    case (Suc j)
    have "valid s1"
      using create_valid [OF Cons.prems(1) c1] .
    then show ?thesis
      using Cons.IH [OF _ rest(1)] Cons.prems(3-5) Suc rest(2) by simp
  qed
qed simp

end

interpretation accounts: credential_store "ready svc" "nocase_key svc" "create_in svc" "verify_in svc"
  for svc :: "('p, 'h) services"
proof
  fix s s' :: store and c :: create_context and u u' w w' r a
  obtain clock salt fresh fault where c: "c = (clock, salt, fresh, fault)"
    by (cases c)
  show "ready svc s \<Longrightarrow> create_in svc c u w s = (r, s') \<Longrightarrow> ready svc s'"
    using create_account_ready [of svc s clock salt fresh fault u w r s'] by (simp add: c)
  show "ready svc s \<Longrightarrow> create_in svc c u w s = (Inr a, s') \<Longrightarrow>
      nocase_key svc u' = nocase_key svc u \<Longrightarrow> verify_in svc u' w s' = Inr (Some a)"
    using verify_created [of svc s clock salt fresh fault u w a s' u'] by (simp add: c verify_in_def)
  show "create_in svc c u w s = (r, s') \<Longrightarrow> nocase_key svc u' \<noteq> nocase_key svc u \<Longrightarrow>
      verify_in svc u' w' s' = verify_in svc u' w' s"
    using verify_other_user [of svc clock salt fresh fault u w s r s' u' None w']
    by (simp add: c verify_in_def)
  show "verify_in svc u' w' s = Inr (Some a) \<Longrightarrow> nocase_key svc u = nocase_key svc u' \<Longrightarrow>
      create_in svc c u w s = (r, s') \<Longrightarrow> \<not> is_ok r \<and> s' = s"
    using verify_Some_row [of svc None u' w' s a]
      create_taken [of _ s svc u clock salt fresh fault w r s']
    by (auto simp: c verify_in_def)
qed

section \<open>Recording a login and listing\<close>

definition touch :: "ustr \<Rightarrow> int \<Rightarrow> row \<Rightarrow> row" where
  "touch i now r = (if row_id r = i then r\<lparr>row_last_login_at := Some now\<rparr> else r)"

lemma touch_sel [simp]:
  "row_id (touch i now r) = row_id r"
  "row_username (touch i now r) = row_username r"
  "row_hash (touch i now r) = row_hash r"
  "row_created_at (touch i now r) = row_created_at r"
  by (simp_all add: touch_def)

lemma touch_store_ok: "store_ok svc st \<Longrightarrow> store_ok svc (st\<lparr>st_rows := map (touch i now) (st_rows st)\<rparr>)"
  by (simp add: store_ok_def row_ok_def comp_def)

lemma record_login_cases:
  "record_login svc clock fault i st = (res, st') \<Longrightarrow>
   st' = st \<or> st' = st\<lparr>st_poisoned := True\<rparr> \<or>
   (\<exists>now. unix_now clock = Some now \<and> res = Inr () \<and>
     st' = st\<lparr>st_rows := map (touch (uuid_text svc (account_id_uuid i)) now) (st_rows st)\<rparr>)"
  by (auto simp: record_login_def sql_update_login_def account_id_display_def touch_def [abs_def]
      split: if_splits option.splits)

lemma store_ok_poisoned [simp]: "store_ok svc (st\<lparr>st_poisoned := b\<rparr>) = store_ok svc st"
  by (simp add: store_ok_def)

lemma record_login_store_ok:
  "store_ok svc st \<Longrightarrow> record_login svc clock fault i st = (res, st') \<Longrightarrow> store_ok svc st'"
  by (drule record_login_cases) (auto intro: touch_store_ok)

text \<open>The operations that may change the store, as events of a machine.\<close>

datatype store_event =
    Create create_context ustr ustr
  | Login int "ustr option" account_id

fun store_step :: "('p, 'h) services \<Rightarrow> store_event \<Rightarrow> store \<Rightarrow> store" where
  "store_step svc (Create c u p) st = snd (create_in svc c u p st)"
| "store_step svc (Login clock fault i) st = snd (record_login svc clock fault i st)"

lemma create_store_ok:
  assumes "store_ok svc st" "create_account svc clock salt fresh fault u p st = (res, st')"
  shows "store_ok svc st'"
proof (cases "st_poisoned st")
  case False
  then show ?thesis
    using create_account_ready [of svc st clock salt fresh fault u p res st'] assms by (simp add: ready_def)
next
  case True
  then have "st' = st"
    using assms(2) create_account_Inl [of svc clock salt fresh fault u p st _ st']
    by (cases res) (auto simp: create_account_Inr)
  with assms(1) show ?thesis by simp
qed

interpretation store_machine: guarded_machine "store_step svc" "\<lambda>_ _. True" "store_ok svc"
  for svc :: "('p, 'h) services"
proof
  fix st e
  assume "store_ok svc st"
  then show "store_ok svc (store_step svc e st)"
  proof (cases e)
    case (Create c u p)
    with \<open>store_ok svc st\<close> show ?thesis
      by (cases c) (auto intro: create_store_ok prod.collapse [symmetric])
  next
    case (Login clock fault i)
    with \<open>store_ok svc st\<close> show ?thesis
      by (auto intro: record_login_store_ok prod.collapse [symmetric])
  qed
qed

lemma collect_results_total:
  "(\<And>x. x \<in> set xs \<Longrightarrow> f x = Inr (g x)) \<Longrightarrow> collect_results f xs = Inr (map g xs)"
  by (induction xs) auto

lemma list_accounts_ready:
  assumes "ready svc st"
  shows "list_accounts svc None st = Inr (map (account_of_row svc) (sql_rows_by_username svc (st_rows st)))"
proof -
  have "map_err e (and_then (parse_uuid svc (row_id r)) (\<lambda>u. Inr (account_from_row
      (account_id_from_uuid u) (row_username r) (row_created_at r) (row_last_login_at r)))) =
      Inr (account_of_row svc r)" if r: "r \<in> set (sql_rows_by_username svc (st_rows st))" for r e
  proof -
    have "r \<in> set (st_rows st)"
      using r by (simp add: sql_rows_by_username_def)
    then obtain u where "parse_uuid svc (row_id r) = Inr u"
      using assms parse_row_id [of svc r] by (auto simp: ready_def store_ok_def)
    then show ?thesis
      by (simp add: account_of_row_def account_id_from_uuid_def)
  qed
  then show ?thesis
    using assms by (simp add: list_accounts_def ready_def collect_results_total)
qed

end
