(* ===== verification/AccountProps.thy ===== *)
theory AccountProps
  imports AccountStore "HOL-Library.Multiset"
begin

text \<open>
  What the account store guarantees: a created account verifies with its password and goes
  on doing so, the table keeps its invariant under every operation and every failure, a taken
  username is refused in any case, an unknown user and a wrong password look the same and
  cost the same, listing is complete and sorted, and a login is recorded on its account only.
  The last property is what a clock before the epoch does to the store.
\<close>

section \<open>An instance for the witnesses\<close>

text \<open>A hash that is the password itself, and a \<open>Uuid\<close> whose text is one character.\<close>

definition plain_services :: "(unit, ustr) services" where
  "plain_services =
    \<lparr>params_new = (\<lambda>_ _ _. Inr ()), hash_password = (\<lambda>_ pw _. Inr (map unat pw)),
     parse_phc = Inr, verify_password = (\<lambda>pw h. map unat pw = h),
     uuid_text = (\<lambda>u. [unat u]),
     parse_uuid = (\<lambda>s. case s of [n] \<Rightarrow> Inr (word_of_nat n) | _ \<Rightarrow> Inl []),
     nocase_key = to_ascii_lowercase, join_error = lit ''panic''\<rparr>"

lemma plain_services_ok [simp]: "services_ok plain_services"
  by (simp add: services_ok_def plain_services_def)

definition empty_store :: store where
  "empty_store =
    \<lparr>st_rows = [], st_params = test_fast, st_dummy_hash = lit ''dummy'', st_poisoned = False\<rparr>"

lemma empty_store_ready [simp]: "ready plain_services empty_store"
  by (simp add: ready_def store_ok_def empty_store_def) (simp add: plain_services_def)

definition alice_row :: row where
  "alice_row = \<lparr>row_id = [1], row_username = lit ''alice'', row_hash = lit ''pw'',
    row_created_at = 100, row_last_login_at = None\<rparr>"

definition alice_store :: store where
  "alice_store = empty_store\<lparr>st_rows := [alice_row]\<rparr>"

lemma alice_store_ready [simp]: "ready plain_services alice_store"
proof -
  have "uuid_text plain_services 1 = [1]"
    by (simp add: plain_services_def)
  then have "\<exists>u. [1] = uuid_text plain_services u"
    by metis
  moreover have "is_ok (parse_phc plain_services h)" for h
    by (simp add: plain_services_def)
  ultimately show ?thesis
    by (simp add: ready_def store_ok_def row_ok_def alice_store_def alice_row_def empty_store_def)
qed

section \<open>Properties\<close>

text \<open>
  C9: for every account that a sequence of creations on a ready store reports as created, the
  store verifies at the end of the sequence the password it was created with, for the username
  it was created with or any the database compares equal to it, and answers with that account.
  (Whether a session can present that name and password is another matter: it trims them and
  takes the words that end a session for itself.)
\<close>

theorem created_accounts_verify:
  assumes "ready svc st" and "create_all (create_in svc) cs st = (results, st')"
    and "i < length cs" and "cs ! i = (c, u, p)" and "results ! i = Inr a"
    and "nocase_key svc u' = nocase_key svc u"
  shows "fst (verify_credentials svc None u' p st') = Inr (Some a)"
proof -
  have "verify_in svc u p st' = Inr (Some a)"
    using assms(1-5) by (rule accounts.all_created_verify)
  then have "fst (verify_credentials svc None u p st') = Inr (Some a)"
    by (simp add: verify_in_def)
  moreover have "verify_credentials svc None u' p st' = verify_credentials svc None u p st'"
    using assms(6) by (simp add: verify_credentials_def sql_select_user_def)
  ultimately show ?thesis by simp
qed

theorem created_accounts_verify_witness:
  "fst (verify_credentials plain_services None (lit ''Bob'') (lit ''x'')
     (snd (create_all (create_in plain_services)
       [((7, [], 2, None), lit ''bob'', lit ''x''), ((8, [], 3, None), lit ''BOB'', lit ''y'')] alice_store))) =
   Inr (Some (account_from_row (AccountId 2) (lit ''bob'') 7 None))"
proof (rule created_accounts_verify [where i = 0 and u = "lit ''bob''"])
  let ?run = "create_all (create_in plain_services)
    [((7, [], 2, None), lit ''bob'', lit ''x''), ((8, [], 3, None), lit ''BOB'', lit ''y'')] alice_store"
  show "?run = (fst ?run, snd ?run)" by simp
  show "fst ?run ! 0 = Inr (account_from_row (AccountId 2) (lit ''bob'') 7 None)"
    by code_simp
  show "nocase_key plain_services (lit ''Bob'') = nocase_key plain_services (lit ''bob'')"
    by code_simp
qed simp_all

text \<open>
  C13: in a store opened on an empty file, after any creations and logins, with any
  database failures and clocks, no two rows share an id or a username up to the comparison
  of the database, every id is the text of a Uuid and every stored hash can be parsed.
\<close>

theorem store_invariant:
  assumes "services_ok svc" and "store_open svc parent mkdir_fault open_fault schema_fault [] salt ps = Inr st"
  shows "store_ok svc (fold (store_step svc) es st)"
proof (rule store_machine.run_keeps_always)
  obtain h where h: "generate_hash svc salt (lit ''dummy_password_for_timing'') ps = Inr h"
    and st: "st = \<lparr>st_rows = [], st_params = ps, st_dummy_hash = h, st_poisoned = False\<rparr>"
    using assms(2) by (auto simp: store_open_def and_then_Inr_iff simp del: lit_simps split: if_splits option.splits)
  show "store_ok svc st"
    using generate_hash_Inr [OF assms(1) h] assms(1) by (auto simp: store_ok_def st)
qed simp

theorem store_invariant_witness:
  "store_ok plain_services (fold (store_step plain_services)
     [Create (7, [], 2, None) (lit ''bob'') (lit ''x''), Login 9 None (AccountId 2)]
     \<lparr>st_rows = [], st_params = test_fast, st_dummy_hash = lit ''dummy_password_for_timing'', st_poisoned = False\<rparr>)"
proof -
  have "store_open plain_services None None None None [] [] test_fast =
      Inr \<lparr>st_rows = [], st_params = test_fast, st_dummy_hash = lit ''dummy_password_for_timing'',
        st_poisoned = False\<rparr>"
    by code_simp
  from store_invariant [OF plain_services_ok this] show ?thesis .
qed

text \<open>
  C36: creating an account whose username the database compares equal to an existing one is
  refused with the message that names it, whatever the password, and leaves the store as it
  was, provided the lock is not poisoned, the hash can be made, the clock is not before the
  epoch and the database works.
\<close>

theorem taken_username_refused:
  assumes "\<not> st_poisoned st" and "r \<in> set (st_rows st)"
    and "nocase_key svc (row_username r) = nocase_key svc u"
    and "is_ok (generate_hash svc salt p (st_params st))" and "0 \<le> clock"
  shows "create_account svc clock salt fresh None u p st =
    (Inl (Auth (lit ''Account '' @ [39] @ u @ [39] @ lit '' already exists'')), st)"
proof -
  obtain h where "generate_hash svc salt p (st_params st) = Inr h"
    using assms(4) by (cases "generate_hash svc salt p (st_params st)") simp_all
  moreover have "unix_now clock = Some (sint (word_of_int clock :: u64))"
    using assms(5) by (simp add: unix_now_def)
  ultimately show ?thesis
    using assms(1-3) by (auto simp: create_account_def sql_insert_def list_ex_iff Let_def)
qed

theorem taken_username_refused_witness:
  "create_account plain_services 7 [] 2 None (lit ''ALICE'') (lit ''x'') alice_store =
    (Inl (Auth (lit ''Account '' @ [39] @ lit ''ALICE'' @ [39] @ lit '' already exists'')), alice_store)"
  by (rule taken_username_refused [where r = alice_row]) (code_simp | simp add: alice_store_def)+

text \<open>
  C29: on a ready store whose database answers, an unknown username and a wrong password cannot be
  told apart. A name the database compares equal to that of a row gets the one check of argon2
  on the hash of that row, and the account exactly when it accepts the password; any other
  name gets no account, without an error, and also one check, on the dummy hash.
\<close>

theorem unknown_user_like_wrong_password:
  assumes "ready svc st"
  shows "(\<forall>r \<in> set (st_rows st). nocase_key svc (row_username r) = nocase_key svc u \<longrightarrow>
      (\<exists>ph. parse_phc svc (row_hash r) = Inr ph \<and>
        verify_credentials svc None u p st =
          (Inr (if verify_password svc (encode p) ph then Some (account_of_row svc r) else None), [ph]))) \<and>
    ((\<forall>r \<in> set (st_rows st). nocase_key svc (row_username r) \<noteq> nocase_key svc u) \<longrightarrow>
      (\<exists>ph. parse_phc svc (st_dummy_hash st) = Inr ph \<and>
        verify_credentials svc None u p st = (Inr None, [ph])))"
  using verify_unknown [OF assms, of u p] verify_known [OF assms] stored_hash_parses [OF assms] by blast

theorem unknown_user_like_wrong_password_witness:
  "(\<exists>ph. verify_credentials plain_services None (lit ''eve'') (lit ''pw'') alice_store = (Inr None, [ph])) \<and>
   (\<exists>ph. verify_credentials plain_services None (lit ''alice'') (lit ''wrong'') alice_store =
     (Inr (if verify_password plain_services (encode (lit ''wrong'')) ph
           then Some (account_of_row plain_services alice_row) else None), [ph]))"
proof
  have "\<forall>r \<in> set (st_rows alice_store). nocase_key plain_services (row_username r) \<noteq> nocase_key plain_services (lit ''eve'')"
    by code_simp
  with unknown_user_like_wrong_password [OF alice_store_ready, of "lit ''eve''" "lit ''pw''"]
  show "\<exists>ph. verify_credentials plain_services None (lit ''eve'') (lit ''pw'') alice_store = (Inr None, [ph])"
    by blast
  have "alice_row \<in> set (st_rows alice_store)"
    "nocase_key plain_services (row_username alice_row) = nocase_key plain_services (lit ''alice'')"
    by (simp add: alice_store_def, code_simp)
  with unknown_user_like_wrong_password [OF alice_store_ready, of "lit ''alice''" "lit ''wrong''"]
  show "\<exists>ph. verify_credentials plain_services None (lit ''alice'') (lit ''wrong'') alice_store =
     (Inr (if verify_password plain_services (encode (lit ''wrong'')) ph
           then Some (account_of_row plain_services alice_row) else None), [ph])"
    by blast
qed

text \<open>
  C30: listing returns every account of the table exactly once, ordered by username as the
  database compares them, strictly since no two compare equal.
\<close>

theorem listing_complete_and_sorted:
  assumes "ready svc st"
  shows "\<exists>accs. list_accounts svc None st = Inr accs \<and>
    mset accs = mset (map (account_of_row svc) (st_rows st)) \<and>
    sorted_wrt (<) (map (\<lambda>a. nocase_key svc (acc_username a)) accs)"
proof -
  let ?rows = "sql_rows_by_username svc (st_rows st)"
  have u: "acc_username (account_of_row svc r) = row_username r" for r
    by (simp add: account_of_row_def account_from_row_def)
  have "mset ?rows = mset (st_rows st)"
    by (simp add: sql_rows_by_username_def)
  moreover from this have "distinct (map (\<lambda>r. nocase_key svc (row_username r)) ?rows)"
    using assms mset_eq_imp_distinct_iff [of "map (\<lambda>r. nocase_key svc (row_username r)) ?rows"
        "map (\<lambda>r. nocase_key svc (row_username r)) (st_rows st)"]
    by (simp add: ready_def store_ok_def)
  moreover have "sorted (map (\<lambda>r. nocase_key svc (row_username r)) ?rows)"
    by (simp add: sql_rows_by_username_def)
  ultimately show ?thesis
    by (simp add: list_accounts_ready [OF assms] comp_def u strict_sorted_iff)
qed

theorem listing_complete_and_sorted_witness:
  "\<exists>accs. list_accounts plain_services None alice_store = Inr accs \<and>
    mset accs = mset (map (account_of_row plain_services) (st_rows alice_store)) \<and>
    sorted_wrt (<) (map (\<lambda>a. nocase_key plain_services (acc_username a)) accs)"
  by (rule listing_complete_and_sorted) simp

text \<open>
  Recording a login on a working store sets the last login of that account to the time
  and changes no other row and no other field.
\<close>

theorem record_login_touches_one:
  assumes "ready svc st" and "unix_now clock = Some now"
  shows "\<exists>st'. record_login svc clock None (AccountId u) st = (Inr (), st') \<and>
    map (\<lambda>r. r\<lparr>row_last_login_at := None\<rparr>) (st_rows st') = map (\<lambda>r. r\<lparr>row_last_login_at := None\<rparr>) (st_rows st) \<and>
    (\<forall>k < length (st_rows st).
      row_last_login_at (st_rows st' ! k) =
        (if row_id (st_rows st ! k) = uuid_text svc u then Some now
         else row_last_login_at (st_rows st ! k)))"
  using assms
  by (simp add: record_login_def sql_update_login_def account_id_display_def ready_def)

theorem record_login_touches_one_witness:
  "\<exists>st'. record_login plain_services 500 None (AccountId 1) alice_store = (Inr (), st') \<and>
    map row_last_login_at (st_rows st') = [Some 500]"
proof -
  have now: "unix_now 500 = Some 500"
    by code_simp
  have "length (st_rows alice_store) = 1"
    by (simp add: alice_store_def)
  moreover have "row_id (st_rows alice_store ! 0) = uuid_text plain_services 1"
    by (simp add: alice_store_def alice_row_def plain_services_def)
  ultimately have row: "0 < length (st_rows alice_store)"
    "row_id (st_rows alice_store ! 0) = uuid_text plain_services 1" "length (st_rows alice_store) = 1"
    by simp_all
  obtain st' where st': "record_login plain_services 500 None (AccountId 1) alice_store = (Inr (), st')"
    and keeps: "map (\<lambda>r. r\<lparr>row_last_login_at := None\<rparr>) (st_rows st') =
      map (\<lambda>r. r\<lparr>row_last_login_at := None\<rparr>) (st_rows alice_store)"
    and login: "\<forall>k < length (st_rows alice_store). row_last_login_at (st_rows st' ! k) =
      (if row_id (st_rows alice_store ! k) = uuid_text plain_services 1 then Some 500
       else row_last_login_at (st_rows alice_store ! k))"
    using record_login_touches_one [OF alice_store_ready now, of 1] by blast
  have "row_last_login_at (st_rows st' ! 0) = Some 500"
    using login [rule_format, OF row(1)] row(2) by simp
  moreover obtain r where r: "st_rows st' = [r]"
    using map_eq_imp_length_eq [OF keeps] row(3) by (metis One_nat_def length_0_conv length_Suc_conv)
  ultimately have "row_last_login_at r = Some 500"
    by (simp only: nth_Cons_0)
  then have "map row_last_login_at (st_rows st') = [Some 500]"
    by (simp only: r list.map)
  with st' show ?thesis
    by (intro exI conjI)
qed

text \<open>
  Recording a login with a clock before the epoch panics with the lock held, and from
  then on every operation of the store fails in the same way, whatever its arguments.
\<close>

theorem early_clock_disables_store:
  assumes "\<not> st_poisoned st" and "clock < 0"
  shows "\<exists>st'. record_login svc clock fault i st = (Inl (join_failed svc), st') \<and>
    fst (verify_credentials svc f1 u p st') = Inl (join_failed svc) \<and>
    list_accounts svc f2 st' = Inl (join_failed svc) \<and>
    (\<forall>c. \<not> is_ok (fst (create_in svc c u p st'))) \<and>
    (\<forall>clock' f3 j. record_login svc clock' f3 j st' = (Inl (join_failed svc), st'))"
proof -
  let ?st = "st\<lparr>st_poisoned := True\<rparr>"
  have "record_login svc clock fault i st = (Inl (join_failed svc), ?st)"
    using assms by (simp add: record_login_def unix_now_def)
  moreover have "\<not> is_ok (fst (create_account svc a b c d u p ?st))" for a b c d
    by (simp add: create_account_def Let_def split: sum.split option.split)
  moreover have "fst (verify_credentials svc f1 u p ?st) = Inl (join_failed svc)"
    "list_accounts svc f2 ?st = Inl (join_failed svc)"
    "record_login svc clock' f3 j ?st = (Inl (join_failed svc), ?st)" for clock' f3 j
    by (simp_all add: verify_credentials_def list_accounts_def record_login_def)
  ultimately show ?thesis by auto
qed

theorem early_clock_disables_store_witness:
  "\<exists>st'. record_login plain_services (-1) None (AccountId 1) alice_store = (Inl (join_failed plain_services), st') \<and>
    fst (verify_credentials plain_services None (lit ''alice'') (lit ''pw'') st') = Inl (join_failed plain_services)"
  using early_clock_disables_store [of alice_store "-1" plain_services None "AccountId 1" None
      "lit ''alice''" "lit ''pw''" None]
  by (auto simp: alice_store_def empty_store_def)

end
