(* ===== verification/Session.thy ===== *)
theory Session
  imports Worlds Accounts
begin

text \<open>
  The session state machine of \<open>crates/liaozhai-net/src/session.rs\<close>: pure functions
  from a session and a line to a transition, the completion of an authentication, and the
  rendering of the world list. The connection handler applies the transitions.
\<close>

section \<open>States and transitions\<close>

datatype session_state =
    Authenticating "ustr option"
  | WorldSelection account

datatype transition =
    Stay ustr
  | Advance session_state ustr
  | Disconnect ustr
  | AuthPending ustr ustr

record session =
  ses_state :: session_state
  ses_registry :: world_registry

definition session_new :: "world_registry \<Rightarrow> session" where
  "session_new reg = \<lparr>ses_state = Authenticating None, ses_registry = reg\<rparr>"

definition initial_prompt :: ustr where
  "initial_prompt = USERNAME_PROMPT"

definition apply_state :: "session_state \<Rightarrow> session \<Rightarrow> session" where
  "apply_state next s = s\<lparr>ses_state := next\<rparr>"

definition is_password_input :: "session \<Rightarrow> bool" where
  "is_password_input s = (case ses_state s of Authenticating (Some _) \<Rightarrow> True | _ \<Rightarrow> False)"

definition is_session_terminator :: "ustr \<Rightarrow> bool" where
  "is_session_terminator line =
    (to_ascii_lowercase (trim line) \<in> {lit ''quit'', lit ''exit'', lit ''bye'', lit ''disconnect''})"

section \<open>Rendering\<close>

text \<open>The column of the names is one wider than the longest name in bytes.\<close>

definition name_width :: "world_metadata list \<Rightarrow> nat" where
  "name_width ws = fold max (map (\<lambda>w. length (encode (wm_name w))) ws) 0 + 1"

definition world_line :: "nat \<Rightarrow> nat \<Rightarrow> world_metadata \<Rightarrow> ustr" where
  "world_line width i w =
    lit ''  '' @ usize_to_string (i + 1) @ lit ''. '' @ pad_right width (wm_name w) @
    wm_short_description w @ crlf"

definition format_world_list :: "world_metadata list \<Rightarrow> ustr" where
  "format_world_list ws =
    WORLDS_HEADER @ crlf @
    concat (map (\<lambda>(i, w). world_line (name_width ws) i w) (enumerate 0 ws))"

definition format_world_select_prompt :: "nat \<Rightarrow> ustr" where
  "format_world_select_prompt count =
    str_replace (lit ''{n}'') (usize_to_string count) WORLD_SELECT_PROMPT_TEMPLATE"

section \<open>Handling a line\<close>

definition handle_username_input :: "ustr \<Rightarrow> transition" where
  "handle_username_input input =
    (let trimmed = trim input in
     if is_session_terminator trimmed then Disconnect GOODBYE_MSG
     else if trimmed = [] then Stay (EMPTY_USERNAME_MSG @ USERNAME_PROMPT)
     else Advance (Authenticating (Some trimmed)) PASSWORD_PROMPT)"

definition handle_password_input :: "ustr \<Rightarrow> ustr \<Rightarrow> transition" where
  "handle_password_input username input =
    (let trimmed = trim input in
     if is_session_terminator trimmed then Disconnect GOODBYE_MSG
     else if trimmed = [] then Stay (EMPTY_PASSWORD_MSG @ PASSWORD_PROMPT)
     else AuthPending username trimmed)"

definition handle_world_selection_input :: "world_registry \<Rightarrow> account \<Rightarrow> ustr \<Rightarrow> transition" where
  "handle_world_selection_input reg account input =
    (let trimmed = trim input;
         non_numeric = WORLD_SELECTION_NON_NUMERIC_MSG @ format_world_select_prompt (registry_len reg)
     in if is_session_terminator trimmed then Disconnect GOODBYE_MSG
        else if trimmed = [] then Stay non_numeric
        else
          (case parse_usize trimmed of
             Inr n \<Rightarrow>
               (case get_by_position reg n of
                  Some world \<Rightarrow>
                    Disconnect (crlf @ str_replace (lit ''{world}'') (wm_name world) WORLD_SELECTED_TEMPLATE)
                | None \<Rightarrow>
                    Stay (str_replace (lit ''{n}'') (usize_to_string (registry_len reg))
                        WORLD_SELECTION_OUT_OF_RANGE_MSG @ format_world_select_prompt (registry_len reg)))
           | Inl _ \<Rightarrow> Stay non_numeric))"

definition handle_input :: "session \<Rightarrow> ustr \<Rightarrow> transition" where
  "handle_input s input =
    (case ses_state s of
       Authenticating None \<Rightarrow> handle_username_input input
     | Authenticating (Some name) \<Rightarrow> handle_password_input name input
     | WorldSelection account \<Rightarrow> handle_world_selection_input (ses_registry s) account input)"

definition complete_auth :: "session \<Rightarrow> account option \<Rightarrow> transition" where
  "complete_auth s auth_result =
    (case auth_result of
       Some account \<Rightarrow>
         Advance (WorldSelection account)
           (str_replace (lit ''{username}'') (acc_username account) WELCOME_TEMPLATE @
            format_world_list (worlds (ses_registry s)) @ crlf @
            format_world_select_prompt (registry_len (ses_registry s)))
     | None \<Rightarrow> Advance (Authenticating None) (AUTH_FAILED_MSG @ USERNAME_PROMPT))"

section \<open>The lines that end a session\<close>

lemma terminator_trim [simp]: "is_session_terminator (trim l) = is_session_terminator l"
  by (simp add: is_session_terminator_def)

lemma terminator_Nil [simp]: "\<not> is_session_terminator []"
  by (simp add: is_session_terminator_def to_ascii_lowercase_def)

lemma terminator_not_empty: "is_session_terminator l \<Longrightarrow> trim l \<noteq> []"
  by (auto simp: is_session_terminator_def to_ascii_lowercase_def)

lemma digits_not_terminator: "\<not> is_session_terminator (usize_to_string n)"
proof
  assume t: "is_session_terminator (usize_to_string n)"
  obtain d ds where d: "usize_to_string n = d # ds"
    using usize_to_string_ne [of n] by (cases "usize_to_string n") auto
  then have "48 \<le> d \<and> d \<le> 57"
    using nat_digits_digits [of n] by (simp add: usize_to_string_def)
  moreover have "to_ascii_lowercase (d # ds) \<in> {lit ''quit'', lit ''exit'', lit ''bye'', lit ''disconnect''}"
    using t d trim_usize_to_string [of n] by (simp only: is_session_terminator_def)
  ultimately show False
    by (auto simp: to_ascii_lowercase_def ascii_lower_def)
qed

text \<open>A username or a password as the session hands it on.\<close>

definition credential_text :: "ustr \<Rightarrow> bool" where
  "credential_text t = (trim t = t \<and> t \<noteq> [] \<and> \<not> is_session_terminator t)"

lemma credential_text_trim:
  "\<not> is_session_terminator l \<Longrightarrow> trim l \<noteq> [] \<Longrightarrow> credential_text (trim l)"
  by (simp add: credential_text_def)

definition session_ok :: "session \<Rightarrow> bool" where
  "session_ok s =
    (case ses_state s of Authenticating (Some name) \<Rightarrow> credential_text name | _ \<Rightarrow> True)"

lemma handle_input_cases:
  obtains (quit) "is_session_terminator l" "handle_input s l = Disconnect GOODBYE_MSG"
  | (blank) out where "trim l = []" "handle_input s l = Stay out"
  | (name) "ses_state s = Authenticating None" "credential_text (trim l)"
      "handle_input s l = Advance (Authenticating (Some (trim l))) PASSWORD_PROMPT"
  | (password) u where "ses_state s = Authenticating (Some u)" "credential_text (trim l)"
      "handle_input s l = AuthPending u (trim l)"
  | (chosen) a k w where "ses_state s = WorldSelection a" "\<not> is_session_terminator l"
      "parse_usize (trim l) = Inr k" "get_by_position (ses_registry s) k = Some w"
      "handle_input s l = Disconnect (crlf @ str_replace (lit ''{world}'') (wm_name w) WORLD_SELECTED_TEMPLATE)"
  | (refused) a out where "ses_state s = WorldSelection a" "\<not> is_session_terminator l" "trim l \<noteq> []"
      "\<And>k. parse_usize (trim l) = Inr k \<Longrightarrow> get_by_position (ses_registry s) k = None"
      "handle_input s l = Stay out"
proof -
  show thesis
  proof (cases "is_session_terminator l")
    case True
    show thesis
      by (rule quit [OF True])
         (simp add: handle_input_def handle_username_input_def handle_password_input_def
           handle_world_selection_input_def True Let_def split: session_state.split option.split)
  next
    case nt: False
    show thesis
    proof (cases "trim l = []")
      case True
      have "\<exists>out. handle_input s l = Stay out"
        using nt by (simp add: handle_input_def handle_username_input_def handle_password_input_def
          handle_world_selection_input_def True Let_def split: session_state.split option.split)
      then show thesis
        using blank [OF True] by blast
    next
      case ne: False
      note ct = credential_text_trim [OF nt ne]
      show thesis
      proof (cases "ses_state s")
        case (Authenticating u)
        show thesis
        proof (cases u)
          case None
          show thesis
            by (rule name [OF _ ct])
               (simp_all add: Authenticating None handle_input_def handle_username_input_def nt ne)
        next
          case (Some n)
          show thesis
            by (rule password [OF _ ct, of n])
               (simp_all add: Authenticating Some handle_input_def handle_password_input_def nt ne)
        qed
      next
        case (WorldSelection a)
        have h: "handle_input s l = handle_world_selection_input (ses_registry s) a l"
          by (simp add: handle_input_def WorldSelection)
        show thesis
        proof (cases "\<exists>k w. parse_usize (trim l) = Inr k \<and> get_by_position (ses_registry s) k = Some w")
          case True
          then obtain k w where kw: "parse_usize (trim l) = Inr k" "get_by_position (ses_registry s) k = Some w"
            by blast
          show thesis
            by (rule chosen [OF WorldSelection nt kw])
               (simp add: h handle_world_selection_input_def nt ne kw Let_def)
        next
          case False
          then have none: "parse_usize (trim l) = Inr k \<Longrightarrow> get_by_position (ses_registry s) k = None" for k
            by (cases "get_by_position (ses_registry s) k") auto
          have "\<exists>out. handle_input s l = Stay out"
            using none nt ne
            by (cases "parse_usize (trim l)") (simp_all add: h handle_world_selection_input_def Let_def)
          then show thesis
            using refused [OF WorldSelection nt ne none] by blast
        qed
      qed
    qed
  qed
qed

text \<open>The credentials a session in order hands on for verification.\<close>

lemma credentials_of_session:
  assumes "session_ok s" and "handle_input s l = AuthPending u p"
  shows "credential_text u" and "credential_text p" and "p = trim l"
  by (rule handle_input_cases [of l s]; use assms in \<open>simp add: session_ok_def\<close>)+

lemma complete_auth_simps [simp]:
  "complete_auth s None = Advance (Authenticating None) (AUTH_FAILED_MSG @ USERNAME_PROMPT)"
  by (simp add: complete_auth_def)

lemma complete_auth_Some:
  "\<exists>out. complete_auth s (Some a) = Advance (WorldSelection a) out"
  by (simp add: complete_auth_def)

section \<open>The columns of the world list\<close>

lemma fold_max_ge: "(m :: nat) \<le> fold max xs m"
proof (induction xs arbitrary: m)
  case (Cons y ys)
  have "m \<le> max y m" by simp
  also have "\<dots> \<le> fold max ys (max y m)" by (rule Cons.IH)
  finally show ?case by simp
qed simp

lemma fold_max_le: "(x :: nat) \<in> set xs \<Longrightarrow> x \<le> fold max xs m"
proof (induction xs arbitrary: m)
  case (Cons y ys)
  show ?case
  proof (cases "x = y")
    case True
    have "x \<le> max y m" using True by simp
    also have "\<dots> \<le> fold max ys (max y m)" by (rule fold_max_ge)
    finally show ?thesis by simp
  next
    case False
    with Cons.prems have "x \<in> set ys" by simp
    from Cons.IH [OF this] show ?thesis by simp
  qed
qed simp

lemma length_le_encode: "length s \<le> length (encode s)"
proof (induction s)
  case (Cons c s)
  then show ?case
    using encode_char_ne [of c] by (cases "encode_char c") simp_all
qed (simp add: encode_def)

lemma name_fits:
  assumes "w \<in> set ws"
  shows "length (wm_name w) < name_width ws"
proof -
  have "length (encode (wm_name w)) \<le> fold max (map (\<lambda>w. length (encode (wm_name w))) ws) 0"
    using assms by (intro fold_max_le) simp
  with length_le_encode [of "wm_name w"] show ?thesis
    by (simp add: name_width_def)
qed

end
