(* ===== verification/SessionProps.thy ===== *)
theory SessionProps
  imports Session
begin

text \<open>
  What the session guarantees: a world is chosen exactly by its number, the words that end a
  session end it in every state, and a fresh login is asked for after a failure.
  The last property is about the layout of the world list.
\<close>

text \<open>A text that is read as a number is not one of the words.\<close>

lemma number_not_terminator:
  assumes "parse_usize (trim l) = Inr k"
  shows "\<not> is_session_terminator l" and "trim l \<noteq> []"
proof -
  show ne: "trim l \<noteq> []"
    using assms by (auto simp: parse_usize_def)
  obtain c cs where c: "trim l = c # cs"
    using ne by (cases "trim l") auto
  then have "c = 43 \<or> (48 \<le> c \<and> c \<le> 57)"
    using assms by (auto simp: parse_usize_def split: if_splits)
  then show "\<not> is_session_terminator l"
    by (auto simp: is_session_terminator_def to_ascii_lowercase_def ascii_lower_def c)
qed

text \<open>
  C32: in world selection every line is either a word that ends the session, answered with the
  farewell, or read, without the white space around it, as the program reads a number (an
  optional plus sign and digits): the number of a world ends the session with that world's
  name, and everything else (no number, zero, or a number beyond the last world) keeps the
  session where it is. The decimal text of every number of 64 bits is read as that number.
\<close>

theorem world_chosen_by_number:
  assumes "ses_state s = WorldSelection a"
  shows "(if is_session_terminator l then handle_input s l = Disconnect GOODBYE_MSG
     else
       (case parse_usize (trim l) of
          Inr k \<Rightarrow>
            if 1 \<le> k \<and> k \<le> registry_len (ses_registry s) then
              handle_input s l = Disconnect (crlf @ lit ''In v0.1, you would now be in '' @
                wm_name (worlds (ses_registry s) ! (k - 1)) @ lit ''. Disconnecting.'' @ crlf)
            else \<exists>out. handle_input s l = Stay out
        | Inl e \<Rightarrow> \<exists>out. handle_input s l = Stay out)) \<and>
    (\<forall>k < usize_bound. trim l = usize_to_string k \<longrightarrow>
      \<not> is_session_terminator l \<and> parse_usize (trim l) = Inr k)"
proof -
  have "\<forall>k < usize_bound. trim l = usize_to_string k \<longrightarrow>
      \<not> is_session_terminator l \<and> parse_usize (trim l) = Inr k"
    using number_not_terminator(1) [of l] by (simp add: parse_usize_to_string)
  moreover have "if is_session_terminator l then handle_input s l = Disconnect GOODBYE_MSG
     else
       (case parse_usize (trim l) of
          Inr k \<Rightarrow>
            if 1 \<le> k \<and> k \<le> registry_len (ses_registry s) then
              handle_input s l = Disconnect (crlf @ lit ''In v0.1, you would now be in '' @
                wm_name (worlds (ses_registry s) ! (k - 1)) @ lit ''. Disconnecting.'' @ crlf)
            else \<exists>out. handle_input s l = Stay out
        | Inl e \<Rightarrow> \<exists>out. handle_input s l = Stay out)"
    by (rule handle_input_cases [of l s])
       (use assms number_not_terminator [of l] in
         \<open>auto simp: registry.pick_Some_iff registry.pick_None_iff template_fills
            simp del: lit_simps split: sum.splits dest: terminator_not_empty\<close>)
  ultimately show ?thesis by blast
qed

definition example_session :: session where
  "example_session =
    \<lparr>ses_state = WorldSelection (account_from_row (AccountId 1) (lit ''alice'') 100 None),
     ses_registry = registry_new [world_metadata_new 5 (lit ''a'') (lit ''Dusk'') (lit ''D'')]\<rparr>"

theorem world_chosen_by_number_witness:
  "handle_input example_session (lit '' +01 '') = Disconnect (crlf @ lit ''In v0.1, you would now be in '' @
    wm_name (worlds (ses_registry example_session) ! (1 - 1)) @ lit ''. Disconnecting.'' @ crlf)"
proof -
  have "registry_len (ses_registry example_session) = 1"
    by code_simp
  moreover have "parse_usize (trim (lit '' +01 '')) = Inr 1" "\<not> is_session_terminator (lit '' +01 '')"
    by code_simp+
  ultimately show ?thesis
    using world_chosen_by_number [of example_session "account_from_row (AccountId 1) (lit ''alice'') 100 None"
        "lit '' +01 ''"]
    by (simp add: example_session_def del: lit_simps)
qed

text \<open>
  C31: the moves of a session. A line never takes it into world selection: only completing an
  authentication that found an account does, and one that did not asks for the username
  again. A terminator ends the session with the farewell in every state, and a session whose
  name is acceptable keeps it so.
\<close>

theorem session_moves:
  assumes "session_ok s"
  shows "(\<forall>l. is_session_terminator l \<longrightarrow> handle_input s l = Disconnect GOODBYE_MSG) \<and>
    (\<forall>l next out. handle_input s l = Advance next out \<longrightarrow>
      ses_state s = Authenticating None \<and> next = Authenticating (Some (trim l)) \<and>
      session_ok (apply_state next s)) \<and>
    (\<forall>res. \<exists>next out. complete_auth s res = Advance next out \<and> session_ok (apply_state next s) \<and>
      next = (case res of Some a \<Rightarrow> WorldSelection a | None \<Rightarrow> Authenticating None))"
proof (intro conjI allI impI)
  fix l
  assume "is_session_terminator l"
  then show "handle_input s l = Disconnect GOODBYE_MSG"
    by (rule_tac handle_input_cases [of l s])
       (auto simp: credential_text_def dest: terminator_not_empty)
next
  fix l nxt out
  assume h: "handle_input s l = Advance nxt out"
  show "ses_state s = Authenticating None" "nxt = Authenticating (Some (trim l))"
    "session_ok (apply_state nxt s)"
    by (rule handle_input_cases [of l s]; use h in \<open>simp add: session_ok_def apply_state_def\<close>)+
next
  fix res
  show "\<exists>nxt out. complete_auth s res = Advance nxt out \<and> session_ok (apply_state nxt s) \<and>
      nxt = (case res of Some a \<Rightarrow> WorldSelection a | None \<Rightarrow> Authenticating None)"
    by (cases res) (simp_all add: complete_auth_def session_ok_def apply_state_def)
qed

theorem session_moves_witness:
  "handle_input (session_new (registry_new [])) (lit ''QUIT'') = Disconnect GOODBYE_MSG"
proof -
  have "session_ok (session_new (registry_new []))"
    by (simp add: session_ok_def session_new_def)
  moreover have "is_session_terminator (lit ''QUIT'')"
    by code_simp
  ultimately show ?thesis
    using session_moves [of "session_new (registry_new [])"] by blast
qed

text \<open>
  In the world list, the description of a world starts at the column given by the width of
  the names and the number of digits of the world's position, so the descriptions of the
  first nine worlds line up and that of the tenth does not line up with them.
\<close>

theorem description_column:
  assumes "w \<in> set ws"
  shows "\<exists>prefix. world_line (name_width ws) i w = prefix @ wm_short_description w @ crlf \<and>
    length prefix = 4 + length (usize_to_string (i + 1)) + name_width ws"
proof -
  let ?p = "lit ''  '' @ usize_to_string (i + 1) @ lit ''. '' @ pad_right (name_width ws) (wm_name w)"
  have "length (pad_right (name_width ws) (wm_name w)) = name_width ws"
    using name_fits [OF assms] by (simp add: length_pad_right)
  then have "length ?p = 4 + length (usize_to_string (i + 1)) + name_width ws"
    by simp
  moreover have "world_line (name_width ws) i w = ?p @ wm_short_description w @ crlf"
    by (simp add: world_line_def)
  ultimately show ?thesis by blast
qed

theorem description_column_witness:
  "\<exists>prefix. world_line (name_width (worlds (ses_registry example_session))) 9
      (world_metadata_new 5 (lit ''a'') (lit ''Dusk'') (lit ''D'')) =
      prefix @ wm_short_description (world_metadata_new 5 (lit ''a'') (lit ''Dusk'') (lit ''D'')) @ crlf \<and>
    length prefix = 4 + length (usize_to_string (9 + 1)) + name_width (worlds (ses_registry example_session))"
  by (rule description_column) (simp add: example_session_def registry_new_def)

end
