(* ===== verification/Connection.thy ===== *)
theory Connection
  imports CodecStream Session AccountStore RateLimiter
begin

text \<open>
  One client connection: the writer of \<open>output.rs\<close>, the shared context of
  \<open>context.rs\<close> and the handler of \<open>connection.rs\<close> in
  \<open>crates/liaozhai-net\<close>. The handler is a step on the connection and the state
  shared with the other connections, for each outcome of the \<open>select!\<close> at the head
  of its loop. Each write takes its outcome from a list of failures to come. What the other
  connections do to the shared state is part of the events: before a step, and during the
  step that waits for a password to be verified.
\<close>

section \<open>Writing\<close>

text \<open>
  A write that fails may have sent some of its bytes first: a failure to come is the text of
  the error and the number of bytes sent before it. With no failures left, writes succeed.
\<close>

record writer =
  w_sent :: bytes
  w_faults :: "(ustr \<times> nat) option list"
  w_shut :: bool

definition writer_new :: "(ustr \<times> nat) option list \<Rightarrow> writer" where
  "writer_new faults = \<lparr>w_sent = [], w_faults = faults, w_shut = False\<rparr>"

fun write_all :: "bytes \<Rightarrow> writer \<Rightarrow> (ustr + unit) \<times> writer" where
  "write_all data w =
    (case w_faults w of
       Some (e, n) # rest \<Rightarrow> (Inl e, w\<lparr>w_sent := w_sent w @ take n data, w_faults := rest\<rparr>)
     | None # rest \<Rightarrow> (Inr (), w\<lparr>w_sent := w_sent w @ data, w_faults := rest\<rparr>)
     | [] \<Rightarrow> (Inr (), w\<lparr>w_sent := w_sent w @ data\<rparr>))"

definition write_line :: "ustr \<Rightarrow> writer \<Rightarrow> (ustr + unit) \<times> writer" where
  "write_line line w = write_all (encode line @ [13, 10]) w"

definition write_raw :: "bytes \<Rightarrow> writer \<Rightarrow> (ustr + unit) \<times> writer" where
  "write_raw data w = write_all data w"

text \<open>A flush sends nothing and may fail as a write does.\<close>

definition writer_flush :: "writer \<Rightarrow> (ustr + unit) \<times> writer" where
  "writer_flush w = write_all [] w"

definition writer_shutdown :: "writer \<Rightarrow> writer" where
  "writer_shutdown w = w\<lparr>w_shut := True\<rparr>"

section \<open>Shared state, connection and events\<close>

record shared =
  sh_store :: store
  sh_limiter :: rate_limiter

text \<open>The fixed part of the context, with the parameters of the platform beside it.\<close>

record ('p, 'h) session_context =
  cx_services :: "('p, 'h) services"
  cx_registry :: world_registry
  cx_max_login_attempts :: u32
  cx_order :: "failure_map \<Rightarrow> failure_map"
  cx_imin :: int
  cx_ip :: ip_addr

record conn =
  cn_session :: session
  cn_writer :: writer
  cn_auth_failures :: u32
  cn_line_count :: u64
  cn_closing :: bool

text \<open>
  What other connections, and the command line on the same database, do to the shared
  state: an operation of the limiter or of the store.
\<close>

datatype shared_op =
    On_limiter rl_event
  | On_store store_event

fun apply_shared :: "('p, 'h) session_context \<Rightarrow> shared_op \<Rightarrow> shared \<Rightarrow> shared" where
  "apply_shared cx (On_limiter e) sh =
    sh\<lparr>sh_limiter := rl_step (cx_order cx) (cx_imin cx) e (sh_limiter sh)\<rparr>"
| "apply_shared cx (On_store e) sh = sh\<lparr>sh_store := store_step (cx_services cx) e (sh_store sh)\<rparr>"

text \<open>
  What the surroundings supply while one event is handled: the failure of the credential
  query, if any, the clock and the failure of recording the login, the instants the rate
  limiter reads, and what other connections do while the password is verified.
\<close>

record ambient =
  am_verify_fault :: "ustr option"
  am_login_clock :: int
  am_login_fault :: "ustr option"
  am_now1 :: instant
  am_now2 :: instant
  am_now3 :: instant
  am_meanwhile :: "shared_op list"

datatype incoming =
    Cancelled
  | Received codec_item
  | Failed_read codec_error
  | End_of_stream

datatype conn_event =
    Incoming ambient incoming
  | Elsewhere shared_op

section \<open>The handler\<close>

definition send :: "bytes \<Rightarrow> conn \<Rightarrow> (ustr + unit) \<times> conn" where
  "send data c = (case write_raw data (cn_writer c) of (r, w) \<Rightarrow> (r, c\<lparr>cn_writer := w\<rparr>))"

definition close :: "conn \<Rightarrow> conn" where
  "close c = c\<lparr>cn_closing := True\<rparr>"

definition enter :: "session_state \<Rightarrow> conn \<Rightarrow> conn" where
  "enter next c = c\<lparr>cn_session := apply_state next (cn_session c)\<rparr>"

text \<open>Write, and leave the loop if that fails; otherwise go on.\<close>

definition send_or_close :: "bytes \<Rightarrow> (conn \<Rightarrow> conn) \<Rightarrow> conn \<Rightarrow> conn" where
  "send_or_close data k c =
    (case send data c of (Inl e, c') \<Rightarrow> close c' | (Inr _, c') \<Rightarrow> k c')"

definition on_stay :: "ustr \<Rightarrow> conn \<Rightarrow> conn" where
  "on_stay output c = send_or_close (encode output) (\<lambda>c'. c') c"

definition echo_prefix :: "session_state \<Rightarrow> bytes" where
  "echo_prefix next =
    (case next of
       Authenticating (Some _) \<Rightarrow> IAC_WILL_ECHO
     | Authenticating None \<Rightarrow> []
     | WorldSelection _ \<Rightarrow> IAC_WONT_ECHO)"

definition on_advance :: "session_state \<Rightarrow> ustr \<Rightarrow> conn \<Rightarrow> conn" where
  "on_advance next output c = send_or_close (echo_prefix next @ encode output) (enter next) c"

definition on_completion :: "account option \<Rightarrow> conn \<Rightarrow> conn" where
  "on_completion res c =
    (case complete_auth (cn_session c) res of
       Advance next output \<Rightarrow> send_or_close (encode output) (enter next) c
     | _ \<Rightarrow> close c)"

definition on_disconnect :: "ustr \<Rightarrow> conn \<Rightarrow> conn" where
  "on_disconnect goodbye c =
    (let c1 = (if is_password_input (cn_session c) then snd (send IAC_WONT_ECHO c) else c)
     in close (snd (send (encode goodbye) c1)))"

definition on_success :: "('p, 'h) session_context \<Rightarrow> ambient \<Rightarrow> account \<Rightarrow> shared \<Rightarrow> shared" where
  "on_success cx am a sh =
    (let sh1 = sh\<lparr>sh_limiter := reset (cx_ip cx) (sh_limiter sh)\<rparr>
     in sh1\<lparr>sh_store := snd (record_login (cx_services cx) (am_login_clock am) (am_login_fault am)
          (acc_id a) (sh_store sh1))\<rparr>)"

definition on_failure :: "('p, 'h) session_context \<Rightarrow> ambient \<Rightarrow> shared \<Rightarrow> shared" where
  "on_failure cx am sh =
    sh\<lparr>sh_limiter := record_failure (cx_order cx) (cx_imin cx) (am_now1 am) (am_now2 am) (am_now3 am)
        (cx_ip cx) (sh_limiter sh)\<rparr>"

definition on_auth_result :: "('p, 'h) session_context \<Rightarrow> ambient \<Rightarrow> account option \<Rightarrow> conn \<times> shared
    \<Rightarrow> conn \<times> shared" where
  "on_auth_result cx am res s =
    (case s of (c, sh) \<Rightarrow>
      (case res of
         Some a \<Rightarrow> (on_completion res c, on_success cx am a sh)
       | None \<Rightarrow>
           let c1 = c\<lparr>cn_auth_failures := cn_auth_failures c + 1\<rparr>;
               sh1 = on_failure cx am sh
           in if cx_max_login_attempts cx \<le> cn_auth_failures c1
              then (close (snd (send (encode AUTH_MAX_RETRIES_MSG) c1)), sh1)
              else (on_completion res c1, sh1)))"

definition meanwhile :: "('p, 'h) session_context \<Rightarrow> ambient \<Rightarrow> shared \<Rightarrow> shared" where
  "meanwhile cx am sh = fold (apply_shared cx) (am_meanwhile am) sh"

definition on_auth_pending :: "('p, 'h) session_context \<Rightarrow> ambient \<Rightarrow> ustr \<Rightarrow> ustr \<Rightarrow> conn \<times> shared
    \<Rightarrow> conn \<times> shared" where
  "on_auth_pending cx am username password s =
    (case s of (c, sh) \<Rightarrow>
      (case send IAC_WONT_ECHO c of
         (Inl e, c1) \<Rightarrow> (close c1, sh)
       | (Inr _, c1) \<Rightarrow>
           (case fst (verify_credentials (cx_services cx) (am_verify_fault am) username password (sh_store sh)) of
              Inl e \<Rightarrow> (close (snd (send (encode AUTH_INTERNAL_ERROR_MSG) c1)), meanwhile cx am sh)
            | Inr res \<Rightarrow> on_auth_result cx am res (c1, meanwhile cx am sh))))"

definition on_line :: "('p, 'h) session_context \<Rightarrow> ambient \<Rightarrow> ustr \<Rightarrow> conn \<times> shared \<Rightarrow> conn \<times> shared" where
  "on_line cx am line s =
    (case s of (c0, sh) \<Rightarrow>
      let c = c0\<lparr>cn_line_count := cn_line_count c0 + 1\<rparr> in
      (case handle_input (cn_session c) line of
         Stay output \<Rightarrow> (on_stay output c, sh)
       | Advance next output \<Rightarrow> (on_advance next output c, sh)
       | AuthPending username password \<Rightarrow> on_auth_pending cx am username password (c, sh)
       | Disconnect goodbye \<Rightarrow> (on_disconnect goodbye c, sh)))"

fun on_incoming :: "('p, 'h) session_context \<Rightarrow> ambient \<Rightarrow> incoming \<Rightarrow> conn \<times> shared \<Rightarrow> conn \<times> shared" where
  "on_incoming cx am Cancelled (c, sh) = (close (snd (send (encode SHUTDOWN_MSG) c)), sh)"
| "on_incoming cx am (Received (Line line)) (c, sh) = on_line cx am line (c, sh)"
| "on_incoming cx am (Received LineTooLong) (c, sh) =
    (send_or_close (encode LINE_TOO_LONG_MSG) (\<lambda>c'. c') c, sh)"
| "on_incoming cx am (Failed_read (BufferOverflow m)) (c, sh) =
    (close (snd (send (encode BUFFER_OVERFLOW_MSG) c)), sh)"
| "on_incoming cx am (Failed_read (CodecIo e)) (c, sh) = (close c, sh)"
| "on_incoming cx am End_of_stream (c, sh) = (close c, sh)"

text \<open>Once the loop is left, what comes in is no longer looked at.\<close>

fun conn_step :: "('p, 'h) session_context \<Rightarrow> conn_event \<Rightarrow> conn \<times> shared \<Rightarrow> conn \<times> shared" where
  "conn_step cx (Incoming am inc) (c, sh) =
    (if cn_closing c then (c, sh) else on_incoming cx am inc (c, sh))"
| "conn_step cx (Elsewhere op) (c, sh) = (c, apply_shared cx op sh)"

definition conn_new :: "world_registry \<Rightarrow> writer \<Rightarrow> conn" where
  "conn_new reg w =
    \<lparr>cn_session = session_new reg, cn_writer = w, cn_auth_failures = 0, cn_line_count = 0,
     cn_closing = False\<rparr>"

text \<open>
  The whole handler: the check of the address, the banner, the loop over the events, and the
  shutdown of the writer once the loop is left. The result is None while it still waits.
\<close>

definition handle_connection :: "('p, 'h) session_context \<Rightarrow> instant \<Rightarrow> instant \<Rightarrow> conn_event list \<Rightarrow> writer
    \<Rightarrow> shared \<Rightarrow> (error + unit) option \<times> writer \<times> shared" where
  "handle_connection cx now1 now2 events w sh =
    (case is_throttled (cx_imin cx) now1 now2 (cx_ip cx) (sh_limiter sh) of
       (throttled, rl) \<Rightarrow>
         let sh1 = sh\<lparr>sh_limiter := rl\<rparr> in
         if throttled then
           (Some (Inr ()), writer_shutdown (snd (write_raw (encode AUTH_RATE_LIMITED_MSG) w)), sh1)
         else
           (case write_raw (encode (BANNER @ initial_prompt)) w of
              (Inl e, w1) \<Rightarrow> (Some (Inl (error_from_io e)), w1, sh1)
            | (Inr _, w1) \<Rightarrow>
                (case fold (conn_step cx) events (conn_new (cx_registry cx) w1, sh1) of
                   (c, sh2) \<Rightarrow>
                     if cn_closing c then (Some (Inr ()), writer_shutdown (cn_writer c), sh2)
                     else (None, cn_writer c, sh2))))"

end
