(* ===== verification/ConnectionInv.thy ===== *)
theory ConnectionInv
  imports Connection
begin

text \<open>
  The invariant of a connection and the facts its properties rest on: what the client's
  terminal does with the echo commands among the bytes sent to it, one lemma per part of
  the handler, and the driver that feeds the lines of a byte stream to the handler.
\<close>

section \<open>The client's echo\<close>

text \<open>
  Whether the client echoes what is typed, after the bytes received: a telnet client stops
  at IAC WILL ECHO and resumes at IAC WONT ECHO. A whole byte sequence does not end
  inside a command.
\<close>

fun echo_after :: "bool \<Rightarrow> bytes \<Rightarrow> bool" where
  "echo_after e [] = e"
| "echo_after e (b # bs) =
    echo_after
      (if take 3 (b # bs) = IAC_WILL_ECHO then False
       else if take 3 (b # bs) = IAC_WONT_ECHO then True
       else e) bs"

definition whole :: "bytes \<Rightarrow> bool" where
  "whole xs = (\<forall>e ys. echo_after e (xs @ ys) = echo_after (echo_after e xs) ys)"

text \<open>The echo of a client that echoed before the connection, after all that was sent.\<close>

definition client_echo :: "conn \<Rightarrow> bool" where
  "client_echo c = echo_after True (w_sent (cn_writer c))"

lemma echo_after_text_append: "IAC \<notin> set xs \<Longrightarrow> echo_after e (xs @ ys) = echo_after e ys"
proof (induction xs arbitrary: e)
  case (Cons b xs)
  then have "take 3 (b # xs @ ys) \<noteq> IAC_WILL_ECHO" "take 3 (b # xs @ ys) \<noteq> IAC_WONT_ECHO"
    by (auto simp: byte_defs)
  with Cons show ?case by simp
qed simp

lemma echo_after_text: "IAC \<notin> set xs \<Longrightarrow> echo_after e xs = e"
  using echo_after_text_append [of xs e "[]"] by simp

lemma echo_after_command:
  "echo_after e (IAC_WILL_ECHO @ ys) = echo_after False ys"
  "echo_after e (IAC_WONT_ECHO @ ys) = echo_after True ys"
  by (simp_all add: byte_defs)

lemma echo_after_command_only [simp]:
  "echo_after e IAC_WILL_ECHO = False" "echo_after e IAC_WONT_ECHO = True"
  using echo_after_command [of e "[]"] by simp_all

lemma echo_after_encode [simp]: "echo_after e (encode s) = e"
  by (simp add: echo_after_text)

lemma whole_Nil [simp]: "whole []"
  by (simp add: whole_def)

lemma whole_append: "whole xs \<Longrightarrow> whole ys \<Longrightarrow> whole (xs @ ys)"
  by (simp add: whole_def)

lemma whole_encode [simp]: "whole (encode s)"
  by (simp add: whole_def echo_after_text_append)

lemma whole_commands [simp]: "whole IAC_WILL_ECHO" "whole IAC_WONT_ECHO"
  by (simp_all add: whole_def echo_after_command)

lemma echo_whole_append: "whole xs \<Longrightarrow> echo_after e (xs @ ys) = echo_after (echo_after e xs) ys"
  by (simp add: whole_def)

section \<open>Writes\<close>

lemma send_cases:
  obtains (failed) e w where "send data c = (Inl e, c\<lparr>cn_writer := w\<rparr>)"
  | (sent) w where "send data c = (Inr (), c\<lparr>cn_writer := w\<rparr>)"
      "w_sent w = w_sent (cn_writer c) @ data"
proof (cases "w_faults (cn_writer c)")
  case Nil
  show thesis
    by (rule sent [of "(cn_writer c)\<lparr>w_sent := w_sent (cn_writer c) @ data\<rparr>"])
       (simp_all add: send_def write_raw_def Nil)
next
  case (Cons a rest)
  show thesis
  proof (cases a)
    case None
    show thesis
      by (rule sent [of "(cn_writer c)\<lparr>w_sent := w_sent (cn_writer c) @ data, w_faults := rest\<rparr>"])
         (simp_all add: send_def write_raw_def Cons None)
  next
    case (Some f)
    obtain e n where "f = (e, n)" by (cases f)
    then show thesis
      by (intro failed [of e "(cn_writer c)\<lparr>w_sent := w_sent (cn_writer c) @ take n data, w_faults := rest\<rparr>"])
         (simp add: send_def write_raw_def Cons Some)
  qed
qed

lemma snd_send: "\<exists>w. snd (send data c) = c\<lparr>cn_writer := w\<rparr>"
  by (rule send_cases [of data c]) auto

lemma send_no_faults:
  "w_faults (cn_writer c) = [] \<Longrightarrow>
   send data c = (Inr (), c\<lparr>cn_writer := (cn_writer c)\<lparr>w_sent := w_sent (cn_writer c) @ data\<rparr>\<rparr>)"
  by (simp add: send_def write_raw_def)

lemma send_or_close_cases:
  obtains (failed) w where "send_or_close data k c = close (c\<lparr>cn_writer := w\<rparr>)"
  | (sent) w where "send_or_close data k c = k (c\<lparr>cn_writer := w\<rparr>)"
      "w_sent w = w_sent (cn_writer c) @ data"
proof (rule send_cases [of data c])
  fix e w
  assume "send data c = (Inl e, c\<lparr>cn_writer := w\<rparr>)"
  then show thesis
    by (intro failed [of w]) (simp add: send_or_close_def)
next
  fix w
  assume "send data c = (Inr (), c\<lparr>cn_writer := w\<rparr>)" "w_sent w = w_sent (cn_writer c) @ data"
  then show thesis
    by (intro sent [of w]) (simp_all add: send_or_close_def)
qed

lemma close_sel [simp]:
  "cn_session (close c) = cn_session c" "cn_writer (close c) = cn_writer c"
  "cn_auth_failures (close c) = cn_auth_failures c" "cn_closing (close c)"
  by (simp_all add: close_def)

lemma enter_sel [simp]:
  "cn_session (enter n c) = apply_state n (cn_session c)" "cn_writer (enter n c) = cn_writer c"
  "cn_auth_failures (enter n c) = cn_auth_failures c" "cn_closing (enter n c) = cn_closing c"
  by (simp_all add: enter_def)

lemma apply_state_sel [simp]:
  "ses_state (apply_state n s) = n" "ses_registry (apply_state n s) = ses_registry s"
  by (simp_all add: apply_state_def)

section \<open>The invariant\<close>

text \<open>
  While the loop runs, the client's echo is off exactly when a password is awaited, what was
  sent does not end inside a command, and another failed attempt is still allowed; always,
  the session is well formed and the failures are within the limit, a limit of zero counting
  as one.
\<close>

definition attempts :: "u32 \<Rightarrow> nat" where
  "attempts limit = max 1 (unat limit)"

definition open_ok :: "u32 \<Rightarrow> conn \<Rightarrow> bool" where
  "open_ok limit c =
    (whole (w_sent (cn_writer c)) \<and>
     echo_after True (w_sent (cn_writer c)) = (\<not> is_password_input (cn_session c)) \<and>
     unat (cn_auth_failures c) < attempts limit)"

definition conn_ok :: "u32 \<Rightarrow> conn \<Rightarrow> bool" where
  "conn_ok limit c =
    (session_ok (cn_session c) \<and> unat (cn_auth_failures c) \<le> attempts limit \<and>
     (\<not> cn_closing c \<longrightarrow> open_ok limit c))"

lemma conn_ok_close:
  "conn_ok limit c \<Longrightarrow> conn_ok limit (close (c\<lparr>cn_writer := w\<rparr>))"
  by (simp add: conn_ok_def)

lemma conn_ok_writer_only:
  "conn_ok limit c \<Longrightarrow> w_sent w = w_sent (cn_writer c) @ encode s \<Longrightarrow> conn_ok limit (c\<lparr>cn_writer := w\<rparr>)"
  by (auto simp: conn_ok_def open_ok_def whole_append echo_whole_append)

lemma conn_ok_say: "conn_ok limit c \<Longrightarrow> conn_ok limit (send_or_close (encode s) (\<lambda>c'. c') c)"
  by (rule send_or_close_cases [of "encode s" "\<lambda>c'. c'" c])
     (auto intro: conn_ok_close conn_ok_writer_only)

lemma conn_ok_last_words: "conn_ok limit c \<Longrightarrow> conn_ok limit (close (snd (send data c)))"
  using snd_send [of data c] by (auto intro: conn_ok_close)

lemma conn_ok_line_count [simp]: "conn_ok limit (c\<lparr>cn_line_count := n\<rparr>) = conn_ok limit c"
  by (simp add: conn_ok_def open_ok_def)

lemma echo_after_prefix:
  "whole (echo_prefix n) \<and>
   echo_after e (echo_prefix n) =
     (case n of Authenticating (Some _) \<Rightarrow> False | Authenticating None \<Rightarrow> e | WorldSelection _ \<Rightarrow> True)"
  by (simp add: echo_prefix_def split: session_state.split option.split)

lemma conn_ok_on_advance:
  assumes "conn_ok limit c" "\<not> cn_closing c" "session_ok (apply_state n (cn_session c))"
    "n = Authenticating None \<longrightarrow> \<not> is_password_input (cn_session c)"
  shows "conn_ok limit (on_advance n output c)"
  unfolding on_advance_def
proof (rule send_or_close_cases [of "echo_prefix n @ encode output" "enter n" c])
  fix w
  assume "send_or_close (echo_prefix n @ encode output) (enter n) c = enter n (c\<lparr>cn_writer := w\<rparr>)"
    and w: "w_sent w = w_sent (cn_writer c) @ echo_prefix n @ encode output"
  moreover have "whole (w_sent w)"
    using assms(1,2) echo_after_prefix [of n True] by (simp add: w conn_ok_def open_ok_def whole_append)
  moreover have "echo_after True (w_sent w) = (\<not> is_password_input (apply_state n (cn_session c)))"
    using assms(1,2,4) echo_after_prefix [of n]
    by (auto simp: w conn_ok_def open_ok_def echo_whole_append is_password_input_def
        split: session_state.splits option.splits)
  ultimately show "conn_ok limit (send_or_close (echo_prefix n @ encode output) (enter n) c)"
    using assms(1-3) by (simp add: conn_ok_def open_ok_def)
qed (use assms(1) in \<open>simp add: conn_ok_close\<close>)

text \<open>A state in which the echo is on although a password was awaited: the command was sent.\<close>

definition restored_ok :: "u32 \<Rightarrow> conn \<Rightarrow> bool" where
  "restored_ok limit c =
    (session_ok (cn_session c) \<and> unat (cn_auth_failures c) < attempts limit \<and>
     whole (w_sent (cn_writer c)) \<and> echo_after True (w_sent (cn_writer c)))"

lemma restored_conn_ok_close: "restored_ok limit c \<Longrightarrow> conn_ok limit (close (snd (send data c)))"
  using snd_send [of data c] by (auto simp: restored_ok_def conn_ok_def)

lemma conn_ok_on_completion:
  assumes "restored_ok limit c"
  shows "conn_ok limit (on_completion res c)"
proof -
  obtain n out where n: "complete_auth (cn_session c) res = Advance n out"
    "session_ok (apply_state n (cn_session c))" "\<not> is_password_input (apply_state n (cn_session c))"
    by (cases res) (auto simp: complete_auth_def session_ok_def is_password_input_def)
  show ?thesis
    unfolding on_completion_def n(1) transition.case
    by (rule send_or_close_cases [of "encode out" "enter n" c])
       (use assms n(2,3) in \<open>auto simp: restored_ok_def conn_ok_def open_ok_def whole_append echo_whole_append\<close>)
qed

lemma count_failure:
  fixes f :: u32
  shows "unat f < attempts limit \<Longrightarrow> unat (f + 1) = Suc (unat f)"
proof -
  assume "unat f < attempts limit"
  moreover have "unat limit < 2 ^ LENGTH(32)"
    by (rule unsigned_less)
  ultimately have "Suc (unat f) < 2 ^ 32"
    by (auto simp: attempts_def max_def split: if_splits)
  then show ?thesis
    by (simp add: unat_word_ariths)
qed

lemma conn_ok_on_auth_result:
  assumes "restored_ok limit c" "cx_max_login_attempts cx = limit"
  shows "conn_ok limit (fst (on_auth_result cx am res (c, sh)))"
proof (cases res)
  case (Some a)
  then show ?thesis
    using assms(1) by (simp add: on_auth_result_def conn_ok_on_completion)
next
  case None
  let ?c = "c\<lparr>cn_auth_failures := cn_auth_failures c + 1\<rparr>"
  have f: "unat (cn_auth_failures c + 1) = Suc (unat (cn_auth_failures c))"
    using assms(1) by (intro count_failure [of _ limit]) (simp add: restored_ok_def)
  show ?thesis
  proof (cases "limit \<le> cn_auth_failures ?c")
    case True
    then show ?thesis
      using None assms f snd_send [of "encode AUTH_MAX_RETRIES_MSG" ?c]
      by (auto simp: on_auth_result_def Let_def conn_ok_def restored_ok_def)
  next
    case False
    then have "restored_ok limit ?c"
      using assms f by (simp add: restored_ok_def attempts_def word_le_nat_alt)
    then show ?thesis
      using None assms(2) False by (simp add: on_auth_result_def Let_def conn_ok_on_completion)
  qed
qed

lemma conn_ok_on_auth_pending:
  assumes "conn_ok limit c" "\<not> cn_closing c" "cx_max_login_attempts cx = limit"
  shows "conn_ok limit (fst (on_auth_pending cx am u p (c, sh)))"
proof (rule send_cases [of IAC_WONT_ECHO c])
  fix e w
  assume "send IAC_WONT_ECHO c = (Inl e, c\<lparr>cn_writer := w\<rparr>)"
  then show ?thesis
    using assms(1) by (simp add: on_auth_pending_def conn_ok_close)
next
  fix w
  assume s: "send IAC_WONT_ECHO c = (Inr (), c\<lparr>cn_writer := w\<rparr>)"
    and w: "w_sent w = w_sent (cn_writer c) @ IAC_WONT_ECHO"
  have "restored_ok limit (c\<lparr>cn_writer := w\<rparr>)"
    using assms(1,2) by (simp add: restored_ok_def conn_ok_def open_ok_def w whole_append echo_whole_append)
  then show ?thesis
    using s assms(3)
    by (cases "fst (verify_credentials (cx_services cx) (am_verify_fault am) u p (sh_store sh))")
       (simp_all add: on_auth_pending_def conn_ok_on_auth_result restored_conn_ok_close)
qed

lemma conn_ok_on_disconnect:
  assumes "conn_ok limit c"
  shows "conn_ok limit (on_disconnect goodbye c)"
proof -
  obtain w1 where w1: "snd (send IAC_WONT_ECHO c) = c\<lparr>cn_writer := w1\<rparr>"
    using snd_send by blast
  obtain w2 where w2: "snd (send (encode goodbye) c) = c\<lparr>cn_writer := w2\<rparr>"
    using snd_send by blast
  obtain w3 where w3: "snd (send (encode goodbye) (c\<lparr>cn_writer := w1\<rparr>)) = c\<lparr>cn_writer := w3\<rparr>"
    using snd_send [of "encode goodbye" "c\<lparr>cn_writer := w1\<rparr>"] by auto
  obtain w where "on_disconnect goodbye c = close (c\<lparr>cn_writer := w\<rparr>)"
    using w1 w2 w3 by (cases "is_password_input (cn_session c)") (auto simp: on_disconnect_def)
  then show ?thesis
    using conn_ok_close [OF assms] by simp
qed

lemma conn_ok_on_line:
  assumes "conn_ok limit c" "\<not> cn_closing c" "cx_max_login_attempts cx = limit"
  shows "conn_ok limit (fst (on_line cx am line (c, sh)))"
proof -
  let ?c = "c\<lparr>cn_line_count := cn_line_count c + 1\<rparr>"
  have ok: "conn_ok limit ?c" "\<not> cn_closing ?c"
    using assms(1,2) by simp_all
  show ?thesis
  proof (cases "handle_input (cn_session ?c) line")
    case (Stay out)
    then show ?thesis
      using ok by (simp add: on_line_def on_stay_def conn_ok_say)
  next
    case (Advance n out)
    have "n = Authenticating (Some (trim line)) \<and> credential_text (trim line)"
      by (rule handle_input_cases [of line "cn_session ?c"]) (use Advance in auto)
    then have "conn_ok limit (on_advance n out ?c)"
      using ok by (intro conn_ok_on_advance) (auto simp: session_ok_def)
    then show ?thesis
      using Advance by (simp add: on_line_def)
  next
    case (Disconnect out)
    then show ?thesis
      using conn_ok_on_disconnect [OF ok(1)] by (simp add: on_line_def)
  next
    case (AuthPending u p)
    then show ?thesis
      using conn_ok_on_auth_pending [OF ok assms(3)] by (simp add: on_line_def)
  qed
qed

lemma conn_step_ok:
  assumes "conn_ok limit (fst s)" "cx_max_login_attempts cx = limit"
  shows "conn_ok limit (fst (conn_step cx e s))"
proof -
  obtain c sh where s: "s = (c, sh)" by (cases s)
  with assms(1) have ok: "conn_ok limit c" by simp
  show ?thesis
  proof (cases e)
    case (Elsewhere f)
    with ok s show ?thesis by simp
  next
    case (Incoming am inc)
    have "conn_ok limit (fst (on_incoming cx am inc (c, sh)))" if open': "\<not> cn_closing c"
    proof (cases inc)
      case (Received item)
      then show ?thesis
        using ok conn_ok_on_line [OF ok open' assms(2)] by (cases item) (simp_all add: conn_ok_say)
    next
      case (Failed_read err)
      then show ?thesis
        using ok conn_ok_close [OF ok, of "cn_writer c"] by (cases err) (simp_all add: conn_ok_last_words)
    qed (use ok conn_ok_close [OF ok, of "cn_writer c"] in \<open>simp_all add: conn_ok_last_words\<close>)
    with ok s Incoming show ?thesis by simp
  qed
qed

interpretation connection: guarded_machine "conn_step cx" "\<lambda>_ _. True"
    "\<lambda>s. conn_ok (cx_max_login_attempts cx) (fst s)"
  for cx :: "('p, 'h) session_context"
  by unfold_locales (rule conn_step_ok, simp_all)

lemma conn_new_ok:
  "w_sent w = encode s \<Longrightarrow> conn_ok limit (conn_new reg w)"
  by (simp add: conn_ok_def open_ok_def conn_new_def session_new_def session_ok_def
      is_password_input_def attempts_def)

lemma conn_run_ok:
  "w_sent w = encode s \<Longrightarrow>
   conn_ok (cx_max_login_attempts cx) (fst (fold (conn_step cx) es (conn_new reg w, sh)))"
  by (rule connection.run_keeps_always) (simp_all add: conn_new_ok)

section \<open>Where a login comes from\<close>

lemma session_of_say [simp]: "cn_session (send_or_close data (\<lambda>c'. c') c) = cn_session c"
  by (rule send_or_close_cases [of data "\<lambda>c'. c'" c]) simp_all

lemma session_of_last_words [simp]: "cn_session (snd (send data c)) = cn_session c"
  using snd_send [of data c] by auto

lemma session_of_enter:
  "ses_state (cn_session (send_or_close data (enter n) c)) = s \<Longrightarrow> ses_state (cn_session c) \<noteq> s \<Longrightarrow> s = n"
  by (rule send_or_close_cases [of data "enter n" c]) simp_all

lemma session_of_disconnect [simp]: "cn_session (on_disconnect goodbye c) = cn_session c"
  by (simp add: on_disconnect_def Let_def)

lemma session_of_completion:
  "ses_state (cn_session (on_completion res c)) = WorldSelection a \<Longrightarrow>
   ses_state (cn_session c) \<noteq> WorldSelection a \<Longrightarrow> res = Some a"
  by (cases res) (auto simp: on_completion_def complete_auth_def dest: session_of_enter)

lemma auth_result_origin:
  "ses_state (cn_session (fst (on_auth_result cx am res (c, sh)))) = WorldSelection a \<Longrightarrow>
   ses_state (cn_session c) \<noteq> WorldSelection a \<Longrightarrow> res = Some a"
  by (cases res)
     (auto simp: on_auth_result_def Let_def dest: session_of_completion split: if_splits)

lemma auth_pending_origin:
  assumes "ses_state (cn_session (fst (on_auth_pending cx am u p (c, sh)))) = WorldSelection a"
    "ses_state (cn_session c) \<noteq> WorldSelection a"
  shows "fst (verify_credentials (cx_services cx) (am_verify_fault am) u p (sh_store sh)) = Inr (Some a)"
proof (rule send_cases [of IAC_WONT_ECHO c])
  fix e w
  assume "send IAC_WONT_ECHO c = (Inl e, c\<lparr>cn_writer := w\<rparr>)"
  with assms show ?thesis by (simp add: on_auth_pending_def)
next
  fix w
  assume "send IAC_WONT_ECHO c = (Inr (), c\<lparr>cn_writer := w\<rparr>)"
  with assms show ?thesis
    using auth_result_origin [of cx am _ "c\<lparr>cn_writer := w\<rparr>" "meanwhile cx am sh" a]
    by (cases "fst (verify_credentials (cx_services cx) (am_verify_fault am) u p (sh_store sh))")
       (auto simp: on_auth_pending_def)
qed

lemma login_step_origin:
  assumes "conn_step cx e (c, sh) = (c', sh')"
    and "ses_state (cn_session c') = WorldSelection a" and "ses_state (cn_session c) \<noteq> WorldSelection a"
  shows "\<exists>am l u. e = Incoming am (Received (Line l)) \<and> ses_state (cn_session c) = Authenticating (Some u) \<and>
    fst (verify_credentials (cx_services cx) (am_verify_fault am) u (trim l) (sh_store sh)) = Inr (Some a)"
proof (cases e)
  case (Elsewhere f)
  with assms show ?thesis by simp
next
  case (Incoming am inc)
  with assms have run: "on_incoming cx am inc (c, sh) = (c', sh')"
    by (simp split: if_splits)
  have "\<exists>l. inc = Received (Line l)"
  proof (rule ccontr)
    assume "\<not> ?thesis"
    with run assms(2,3) show False
      by (cases "(cx, am, inc, (c, sh))" rule: on_incoming.cases) auto
  qed
  then obtain l where l: "inc = Received (Line l)" by blast
  let ?c = "c\<lparr>cn_line_count := cn_line_count c + 1\<rparr>"
  have "on_line cx am l (c, sh) = (c', sh')"
    using run l by simp
  then show ?thesis
  proof (rule_tac handle_input_cases [of l "cn_session c"])
    fix u
    assume u: "ses_state (cn_session c) = Authenticating (Some u)"
      "handle_input (cn_session c) l = AuthPending u (trim l)"
    then have "on_auth_pending cx am u (trim l) (?c, sh) = (c', sh')"
      using \<open>on_line cx am l (c, sh) = (c', sh')\<close> by (simp add: on_line_def Let_def)
    then have "fst (verify_credentials (cx_services cx) (am_verify_fault am) u (trim l) (sh_store sh)) =
        Inr (Some a)"
      using auth_pending_origin [of cx am u "trim l" ?c sh a] assms(2,3) by simp
    with u(1) l Incoming show ?thesis by blast
  next
    assume "handle_input (cn_session c) l = Advance (Authenticating (Some (trim l))) PASSWORD_PROMPT"
    then show ?thesis
      using \<open>on_line cx am l (c, sh) = (c', sh')\<close> assms(2,3)
      by (auto simp: on_line_def Let_def on_advance_def dest: session_of_enter)
  qed (use assms(2,3) in \<open>auto simp: on_line_def Let_def on_stay_def\<close>)
qed

end
