(* ===== verification/Wire.thy ===== *)
theory Wire
  imports Connection
begin

text \<open>
  The handler joined to its reader: \<open>handle_connection_with_codec\<close> of \<open>connection.rs\<close> on
  what happens at its socket (a read returns bytes, the client closes, a read fails), with the
  framed reader over the codec in between. \<open>wire_step\<close> handles one such event at a time
  on the reader's and the handler's state together; \<open>arrivals\<close> is the reader alone, and
  the two agree.
\<close>

section \<open>The reader\<close>

definition client_events :: "ambient \<Rightarrow> (codec_error + codec_item) list \<Rightarrow> conn_event list" where
  "client_events am items =
    map (\<lambda>i. Incoming am (case i of Inr item \<Rightarrow> Received item | Inl e \<Rightarrow> Failed_read e)) items"

datatype wire_event =
    Chunk ambient bytes
  | Closed_by_peer ambient
  | Read_failed ambient ustr
  | Shutdown_signal ambient
  | Others shared_op

definition feed_eof :: "codec \<Rightarrow> bytes \<Rightarrow> (codec_error + codec_item) list \<times> codec \<times> bytes" where
  "feed_eof c buf = drain_all decode_eof c buf"

text \<open>What one event at the socket makes the reader hand on, and the state it leaves it in.\<close>

fun read_step :: "wire_event \<Rightarrow> codec \<Rightarrow> bytes \<Rightarrow> conn_event list \<times> codec \<times> bytes" where
  "read_step (Chunk am bs) c buf = apfst (client_events am) (feed c buf bs)"
| "read_step (Closed_by_peer am) c buf =
    apfst (\<lambda>items. client_events am items @ [Incoming am End_of_stream]) (feed_eof c buf)"
| "read_step (Read_failed am e) c buf = ([Incoming am (Failed_read (CodecIo e))], c, buf)"
| "read_step (Shutdown_signal am) c buf = ([Incoming am Cancelled], c, buf)"
| "read_step (Others op) c buf = ([Elsewhere op], c, buf)"

fun arrivals :: "codec \<Rightarrow> bytes \<Rightarrow> wire_event list \<Rightarrow> conn_event list" where
  "arrivals c buf [] = []"
| "arrivals c buf (ev # evs) =
    (case read_step ev c buf of (es, c', buf') \<Rightarrow> es @ arrivals c' buf' evs)"

definition handle_connection_with_codec :: "('p, 'h) session_context \<Rightarrow> instant \<Rightarrow> instant \<Rightarrow> codec
    \<Rightarrow> wire_event list \<Rightarrow> writer \<Rightarrow> shared \<Rightarrow> (error + unit) option \<times> writer \<times> shared" where
  "handle_connection_with_codec cx now1 now2 codec evs w sh =
    handle_connection cx now1 now2 (arrivals codec [] evs) w sh"

section \<open>Reader and handler together\<close>

record link =
  ln_codec :: codec
  ln_buffer :: bytes
  ln_conn :: conn
  ln_shared :: shared

definition wire_step :: "('p, 'h) session_context \<Rightarrow> wire_event \<Rightarrow> link \<Rightarrow> link" where
  "wire_step cx ev lk =
    (case read_step ev (ln_codec lk) (ln_buffer lk) of
       (es, c', buf') \<Rightarrow>
         (case fold (conn_step cx) es (ln_conn lk, ln_shared lk) of
            (cn, sh) \<Rightarrow> \<lparr>ln_codec = c', ln_buffer = buf', ln_conn = cn, ln_shared = sh\<rparr>))"

definition link_view :: "link \<Rightarrow> conn \<times> shared" where
  "link_view lk = (ln_conn lk, ln_shared lk)"

text \<open>The two views of a run agree, so the whole handler can be followed event by event.\<close>

lemma wire_steps_arrivals:
  "link_view (fold (wire_step cx) evs lk) =
   fold (conn_step cx) (arrivals (ln_codec lk) (ln_buffer lk) evs) (link_view lk)"
proof (induction evs arbitrary: lk)
  case (Cons ev evs)
  have "fold (conn_step cx) (fst (read_step ev (ln_codec lk) (ln_buffer lk))) (link_view lk) =
    link_view (wire_step cx ev lk)"
    by (simp add: wire_step_def link_view_def split: prod.splits)
  then show ?case
    using Cons.IH [of "wire_step cx ev lk"]
    by (simp add: wire_step_def split: prod.splits)
qed (simp add: link_view_def)

text \<open>The connection as the loop starts, after the check of the address and the banner.\<close>

definition open_link :: "('p, 'h) session_context \<Rightarrow> instant \<Rightarrow> instant \<Rightarrow> codec \<Rightarrow> writer \<Rightarrow> shared
    \<Rightarrow> link option" where
  "open_link cx now1 now2 codec w sh =
    (case is_throttled (cx_imin cx) now1 now2 (cx_ip cx) (sh_limiter sh) of
       (throttled, rl) \<Rightarrow>
         if throttled then None
         else
           (case write_raw (encode (BANNER @ initial_prompt)) w of
              (Inl e, w1) \<Rightarrow> None
            | (Inr _, w1) \<Rightarrow>
                Some \<lparr>ln_codec = codec, ln_buffer = [], ln_conn = conn_new (cx_registry cx) w1,
                  ln_shared = sh\<lparr>sh_limiter := rl\<rparr>\<rparr>))"

definition close_link :: "link \<Rightarrow> (error + unit) option \<times> writer \<times> shared" where
  "close_link lk =
    (let c = ln_conn lk
     in if cn_closing c then (Some (Inr ()), writer_shutdown (cn_writer c), ln_shared lk)
        else (None, cn_writer c, ln_shared lk))"

lemma handler_by_links:
  "open_link cx now1 now2 codec w sh = Some lk \<Longrightarrow>
   handle_connection_with_codec cx now1 now2 codec evs w sh = close_link (fold (wire_step cx) evs lk)"
  using wire_steps_arrivals [of cx evs lk]
  by (auto simp: open_link_def handle_connection_with_codec_def handle_connection_def close_link_def
      link_view_def Let_def split: prod.splits sum.splits if_splits)

section \<open>The end of the input\<close>

lemma decode_wait_shorter:
  assumes "decode c buf = (Inr None, c', buf')"
  shows "length buf' \<le> length buf"
proof -
  have active: "\<not> discarding c \<Longrightarrow> decode c buf = (Inr None, c', buf') \<Longrightarrow> length buf' \<le> length buf"
    for c buf
    by (rule decodeE [of c buf]) (auto dest: strip_iac_shorter)
  show ?thesis
  proof (cases "discarding c")
    case True
    show ?thesis
    proof (rule decodeE [of c buf])
      fix c1 b1 p
      let ?rest = "drop (consume_terminator b1 p) b1"
      assume "decode c buf = decode (c1\<lparr>discarding := False\<rparr>) ?rest"
        and s: "strip_iac c buf = (c1, b1)"
      then have "length buf' \<le> length ?rest"
        using assms active [of "c1\<lparr>discarding := False\<rparr>" ?rest] by simp
      then show ?thesis
        using strip_iac_shorter [OF s] by simp
    qed (use assms True in \<open>auto dest: strip_iac_shorter\<close>)
  qed (use assms active in blast)
qed

lemma decode_eof_progress:
  assumes "decode_eof c buf = (Inr (Some i), c', buf')"
  shows "length buf' < length buf"
proof (cases "decode c buf")
  case (fields r c1 buf1)
  show ?thesis
  proof (cases "r = Inr None")
    case True
    then have "buf1 \<noteq> []" "buf' = []"
      using assms fields by (auto simp: decode_eof_def Let_def split: if_splits)
    then show ?thesis
      using decode_wait_shorter fields True by (metis le_zero_eq length_0_conv length_greater_0_conv not_gr_zero)
  next
    case False
    then have "decode c buf = (Inr (Some i), c', buf')"
      using assms fields by (auto simp: decode_eof_def split: sum.splits option.splits)
    then show ?thesis
      by (rule decode_progress)
  qed
qed

interpretation telnet_eof: framed_decoder decode_eof
  by unfold_locales (rule decode_eof_progress)

section \<open>The cuts between reads do not matter\<close>

text \<open>
  \<open>clean_cuts c pre chunks\<close>: after the bytes \<open>pre\<close>, no cut between the reads falls
  inside a CRLF pair, and what waits for its line ending after a read is within the limit.
\<close>

fun clean_cuts :: "codec \<Rightarrow> bytes \<Rightarrow> bytes list \<Rightarrow> bool" where
  "clean_cuts c pre [] = True"
| "clean_cuts c pre (chunk # chunks) =
    (\<not> cut_inside_crlf pre chunk \<and>
     length (snd (split_lines (data_of (pre @ chunk)))) \<le> max_line_length c \<and>
     clean_cuts c (pre @ chunk) chunks)"

lemma plain_prefix: "plain (xs @ ys) \<Longrightarrow> plain xs"
  by (induction xs rule: plain.induct) (auto split: if_splits list.splits)

lemma clean_cuts_view: "same_view c c' \<Longrightarrow> clean_cuts c' pre chunks = clean_cuts c pre chunks"
  by (induction chunks arbitrary: pre) (simp_all add: same_view_limits)

lemma client_events_append: "client_events am (xs @ ys) = client_events am xs @ client_events am ys"
  by (simp add: client_events_def)

lemma arrivals_plain:
  assumes "plain (pre @ concat chunks)" "idle c" "length (pre @ concat chunks) \<le> max_buffer_size c"
    and "split_lines (data_of pre) = (l0, r0)" "clean_cuts c pre chunks"
  shows "\<exists>ls r. split_lines (data_of (pre @ concat chunks)) = (l0 @ ls, r) \<and>
    arrivals c r0 (map (Chunk am) chunks) = client_events am (delivered ls)"
  using assms
proof (induction chunks arbitrary: c pre l0 r0)
  case Nil
  then show ?case by (simp add: client_events_def)
next
  case (Cons x xs)
  obtain l1 r1 where s1: "split_lines (data_of (r0 @ x)) = (l1, r1)"
    by fastforce
  have "plain (pre @ x)"
    using plain_prefix [of "pre @ x"] Cons.prems(1) by simp
  note cut = cut_plain [OF this _ Cons.prems(4) s1]
  have px: "split_lines (data_of (pre @ x)) = (l0 @ l1, r1)" "plain (r0 @ x)"
    using cut Cons.prems(5) by simp_all
  have "length r0 \<le> length pre"
    using length_split_rest [of "data_of pre"] length_data_of [of pre] Cons.prems(4) by simp
  then obtain c1 where c1: "feed c r0 x = (delivered l1, c1, r1)" "same_view c c1"
    using feed_plain [OF px(2) Cons.prems(2) _ s1] Cons.prems(3,5) px(1) by auto
  have "\<exists>ls r. split_lines (data_of ((pre @ x) @ concat xs)) = ((l0 @ l1) @ ls, r) \<and>
    arrivals c1 r1 (map (Chunk am) xs) = client_events am (delivered ls)"
    using Cons.prems px(1) c1(2)
    by (intro Cons.IH) (simp_all add: same_view_idle same_view_limits clean_cuts_view)
  then show ?case
    using c1(1) by (auto simp: client_events_append)
qed

lemma arrivals_one_read:
  assumes "plain (concat chunks)" "idle c" "length (concat chunks) \<le> max_buffer_size c"
    and "clean_cuts c [] chunks" "clean_cuts c [] [concat chunks]"
  shows "arrivals c [] (map (Chunk am) chunks) = arrivals c [] [Chunk am (concat chunks)]"
proof -
  have nil: "split_lines (data_of []) = ([], [])"
    by (simp add: split_lines_None)
  show ?thesis
    using arrivals_plain [of "[]" chunks c, OF _ _ _ nil] arrivals_plain [of "[]" "[concat chunks]" c, OF _ _ _ nil] assms
    by fastforce
qed

end
