(* ===== verification/ConnectionProps.thy ===== *)
theory ConnectionProps
  imports ConnectionInv AccountProps Wire
begin

text \<open>
  What a connection guarantees: a client that sends the right credentials and a number is
  let into that world, with exactly the expected bytes sent to it; nobody is let in without a
  verified password; the client's echo is off exactly while a password is awaited; the
  failed attempts stay within the limit; and the handler fails only when the banner cannot be
  sent. The last property is about the echo of a client that is disconnected in the middle.
\<close>

section \<open>A byte stream as events\<close>

definition client_input :: "ustr list \<Rightarrow> bytes" where
  "client_input ls = concat (map (\<lambda>l. encode l @ [CR, LF]) ls)"

definition no_line_end :: "ustr \<Rightarrow> bool" where
  "no_line_end l = (valid_str l \<and> 10 \<notin> set l \<and> 13 \<notin> set l)"

lemma digits_no_line_end: "no_line_end (usize_to_string k)"
proof -
  have "\<forall>c \<in> set (usize_to_string k). 48 \<le> c \<and> c \<le> 57"
    using nat_digits_digits [of k] by (simp add: usize_to_string_def)
  then show ?thesis
    by (auto simp: no_line_end_def valid_str_def list_all_iff scalar_def)
qed

section \<open>The lines of a login, one by one\<close>

text \<open>A connection in its loop on which every write succeeds, and what it has sent.\<close>

definition talking :: "world_registry \<Rightarrow> session_state \<Rightarrow> u32 \<Rightarrow> u64 \<Rightarrow> bytes \<Rightarrow> conn" where
  "talking reg st fails n out =
    \<lparr>cn_session = \<lparr>ses_state = st, ses_registry = reg\<rparr>,
     cn_writer = \<lparr>w_sent = out, w_faults = [], w_shut = False\<rparr>,
     cn_auth_failures = fails, cn_line_count = n, cn_closing = False\<rparr>"

lemma talking_sel [simp]:
  "cn_writer (talking reg st fails n out) = \<lparr>w_sent = out, w_faults = [], w_shut = False\<rparr>"
  "\<not> cn_closing (talking reg st fails n out)"
  by (simp_all add: talking_def)

lemma username_step:
  assumes "credential_text u"
  shows "conn_step cx (Incoming am (Received (Line u))) (talking reg (Authenticating None) fails n out, sh) =
    (talking reg (Authenticating (Some u)) fails (n + 1) (out @ IAC_WILL_ECHO @ encode PASSWORD_PROMPT), sh)"
  using assms
  by (simp add: talking_def handle_input_def handle_username_input_def credential_text_def on_line_def
      Let_def on_advance_def send_or_close_def send_no_faults echo_prefix_def enter_def apply_state_def)

definition welcome_text :: "account \<Rightarrow> world_registry \<Rightarrow> ustr" where
  "welcome_text a reg =
    lit ''Welcome, '' @ acc_username a @ lit ''.'' @ crlf @ crlf @
    format_world_list (worlds reg) @ crlf @ format_world_select_prompt (registry_len reg)"

lemma password_step:
  assumes "credential_text p"
    and "fst (verify_credentials (cx_services cx) (am_verify_fault am) u p (sh_store sh)) = Inr (Some a)"
  shows "conn_step cx (Incoming am (Received (Line p))) (talking reg (Authenticating (Some u)) fails n out, sh) =
    (talking reg (WorldSelection a) fails (n + 1) (out @ IAC_WONT_ECHO @ encode (welcome_text a reg)),
     on_success cx am a (meanwhile cx am sh))"
  using assms
  by (simp add: talking_def handle_input_def handle_password_input_def credential_text_def on_line_def
      Let_def on_auth_pending_def send_no_faults on_auth_result_def on_completion_def complete_auth_def
      send_or_close_def enter_def apply_state_def welcome_text_def template_fills del: lit_simps)

definition entered_text :: "world_metadata \<Rightarrow> ustr" where
  "entered_text w = crlf @ lit ''In v0.1, you would now be in '' @ wm_name w @ lit ''. Disconnecting.'' @ crlf"

lemma world_step:
  assumes "get_by_position reg k = Some w" "k < usize_bound"
  shows "conn_step cx (Incoming am (Received (Line (usize_to_string k))))
      (talking reg (WorldSelection a) fails n out, sh) =
    (close (talking reg (WorldSelection a) fails (n + 1) (out @ encode (entered_text w))), sh)"
  using assms digits_not_terminator [of k]
  by (simp add: talking_def handle_input_def handle_world_selection_input_def parse_usize_to_string
      template_fills entered_text_def is_password_input_def on_line_def Let_def on_disconnect_def
      send_no_faults close_def del: lit_simps)

text \<open>However it is cut into reads, the text of some lines reaches the handler as those lines.\<close>

lemma lines_arrive:
  assumes "concat chunks = client_input ls" "\<forall>l \<in> set ls. no_line_end l"
    and "length (client_input ls) \<le> MAX_BUFFER_SIZE" "clean_cuts codec_new [] chunks"
  shows "arrivals codec_new [] (map (Chunk am) chunks) = map (\<lambda>l. Incoming am (Received (Line l))) ls"
proof -
  have ls: "\<forall>l \<in> set ls. valid_str l \<and> 10 \<notin> set l \<and> 13 \<notin> set l"
    using assms(2) by (simp add: no_line_end_def)
  let ?in = "concat (map (\<lambda>l. l @ [CR, LF]) (map encode ls))"
  have input: "client_input ls = ?in"
    by (simp add: client_input_def comp_def)
  have iac: "IAC \<notin> set (client_input ls)"
    by (auto simp: client_input_def IAC_CR_LF)
  have "split_lines ?in = (map encode ls, [])"
    using ls by (intro split_lines_concat_crlf) (auto simp: terminators_not_in_encode)
  then have "split_lines (data_of (client_input ls)) = (map encode ls, [])"
    using data_of_IAC_free [OF iac] input by metis
  moreover have "idle codec_new" "max_buffer_size codec_new = MAX_BUFFER_SIZE"
    by (simp_all add: codec_new_def idle_def mode_of_def)
  ultimately have "arrivals codec_new [] (map (Chunk am) chunks) =
      arrivals codec_new [] [Chunk am (client_input ls)]"
    using arrivals_one_read [of chunks codec_new am] assms iac
    by (simp add: cut_inside_crlf_def ends_in_def)
  moreover obtain c' where "feed codec_new [] (client_input ls) = (map (\<lambda>l. Inr (Line l)) ls, c', [])"
    using feed_lines [OF _ ls, of codec_new] assms(3)
    by (auto simp: client_input_def codec_new_def idle_def mode_of_def)
  ultimately show ?thesis
    by (simp add: client_events_def)
qed

section \<open>Properties\<close>

text \<open>
  C1: a login from end to end. A client whose address is not throttled sends the username
  and the password of an account, as text the session hands on unchanged, and the number of
  a world, each ended by CRLF, cut into reads anywhere but inside a CRLF pair. The handler
  returns without an error, the writer is shut down, and the bytes sent to the client are
  exactly the banner and the prompts, with the echo commands around the password, the list of
  worlds and the farewell that names the chosen world. The input fits the reader's buffer, what
  waits for its line ending between two reads is within the limit on lines, the verification
  of these credentials gives the account, and no write fails.
\<close>

theorem login_end_to_end:
  assumes "\<not> fst (is_throttled (cx_imin cx) now1 now2 (cx_ip cx) (sh_limiter sh))"
    and "credential_text u" and "credential_text p" and "no_line_end u" and "no_line_end p"
    and "fst (verify_credentials (cx_services cx) (am_verify_fault am) u p (sh_store sh)) = Inr (Some a)"
    and "get_by_position (cx_registry cx) k = Some w" and "k < usize_bound"
    and "concat chunks = client_input [u, p, usize_to_string k]"
    and "length (client_input [u, p, usize_to_string k]) \<le> MAX_BUFFER_SIZE"
    and "clean_cuts codec_new [] chunks"
  shows "\<exists>sh'. handle_connection_with_codec cx now1 now2 codec_new (map (Chunk am) chunks) (writer_new []) sh =
      (Some (Inr ()),
       \<lparr>w_sent = encode (BANNER @ USERNAME_PROMPT) @ IAC_WILL_ECHO @ encode PASSWORD_PROMPT @
          IAC_WONT_ECHO @ encode (welcome_text a (cx_registry cx)) @ encode (entered_text w),
        w_faults = [], w_shut = True\<rparr>, sh')"
proof -
  let ?reg = "cx_registry cx" and ?sh = "sh\<lparr>sh_limiter := snd (is_throttled (cx_imin cx) now1 now2 (cx_ip cx) (sh_limiter sh))\<rparr>"
  let ?out = "encode (BANNER @ USERNAME_PROMPT)"
  have "arrivals codec_new [] (map (Chunk am) chunks) =
      map (\<lambda>l. Incoming am (Received (Line l))) [u, p, usize_to_string k]"
    using assms(4,5,9-11) digits_no_line_end [of k] by (intro lines_arrive) auto
  moreover have "conn_new ?reg \<lparr>w_sent = ?out, w_faults = [], w_shut = False\<rparr> =
      talking ?reg (Authenticating None) 0 0 ?out"
    by (simp add: conn_new_def talking_def session_new_def)
  moreover have "write_raw (encode (BANNER @ initial_prompt)) (writer_new []) =
      (Inr (), \<lparr>w_sent = ?out, w_faults = [], w_shut = False\<rparr>)"
    by (simp add: write_raw_def writer_new_def initial_prompt_def)
  moreover have "fst (verify_credentials (cx_services cx) (am_verify_fault am) u p (sh_store ?sh)) = Inr (Some a)"
    using assms(6) by simp
  note steps = username_step [OF assms(2)] password_step [OF assms(3) this] world_step [OF assms(7,8)]
  ultimately show ?thesis
    using assms(1)
    by (simp add: handle_connection_with_codec_def handle_connection_def steps prod.case_eq_if Let_def
        writer_shutdown_def del: conn_step.simps encode_append)
qed

definition example_cx :: "(unit, ustr) session_context" where
  "example_cx =
    \<lparr>cx_services = plain_services,
     cx_registry = registry_new [world_metadata_new 5 (lit ''dusk'') (lit ''Dusk'') (lit ''A studio'')],
     cx_max_login_attempts = 3, cx_order = id, cx_imin = 0, cx_ip = V4 1\<rparr>"

definition example_shared :: shared where
  "example_shared = \<lparr>sh_store = alice_store, sh_limiter = rate_limiter_new 60 10 100\<rparr>"

definition example_am :: ambient where
  "example_am =
    \<lparr>am_verify_fault = None, am_login_clock = 500, am_login_fault = None,
     am_now1 = 100, am_now2 = 100, am_now3 = 100, am_meanwhile = []\<rparr>"

text \<open>The input of the example in three reads, the second of which ends a line and starts another.\<close>

definition example_chunks :: "bytes list" where
  "example_chunks = [encode (lit ''Ali''), encode (lit ''ce'') @ [13, 10] @ encode (lit ''p''),
    encode (lit ''w'') @ [13, 10] @ encode (lit ''1'') @ [13, 10]]"

theorem login_end_to_end_witness:
  "\<exists>sh'. handle_connection_with_codec example_cx 100 100 codec_new (map (Chunk example_am) example_chunks)
      (writer_new []) example_shared =
      (Some (Inr ()),
       \<lparr>w_sent = encode (BANNER @ USERNAME_PROMPT) @ IAC_WILL_ECHO @ encode PASSWORD_PROMPT @
          IAC_WONT_ECHO @ encode (welcome_text (account_of_row plain_services alice_row) (cx_registry example_cx)) @
          encode (entered_text (world_metadata_new 5 (lit ''dusk'') (lit ''Dusk'') (lit ''A studio''))),
        w_faults = [], w_shut = True\<rparr>, sh')"
proof (rule login_end_to_end)
  show "fst (verify_credentials (cx_services example_cx) (am_verify_fault example_am) (lit ''Alice'') (lit ''pw'')
      (sh_store example_shared)) = Inr (Some (account_of_row plain_services alice_row))"
    by code_simp
  show "concat example_chunks = client_input [lit ''Alice'', lit ''pw'', usize_to_string 1]"
    by code_simp
qed code_simp+

text \<open>
  C8: the client's echo. Whatever comes in, from the client, from the other connections
  and from the network, as long as the handler is in its loop a client that follows the
  echo commands has its echo off exactly when the session awaits a password.
\<close>

theorem echo_off_exactly_for_passwords:
  assumes "w_sent w = encode (BANNER @ initial_prompt)"
    and "fold (conn_step cx) es (conn_new reg w, sh) = (c, sh')" and "\<not> cn_closing c"
  shows "client_echo c \<longleftrightarrow> \<not> is_password_input (cn_session c)"
  using conn_run_ok [OF assms(1), of cx es reg sh] assms(2,3)
  by (simp add: conn_ok_def open_ok_def client_echo_def)

definition banner_writer :: writer where
  "banner_writer = \<lparr>w_sent = encode (BANNER @ initial_prompt), w_faults = [], w_shut = False\<rparr>"

theorem echo_off_exactly_for_passwords_witness:
  "\<exists>c sh'. fold (conn_step example_cx) [Incoming example_am (Received (Line (lit ''alice'')))]
      (conn_new (cx_registry example_cx) banner_writer, example_shared) = (c, sh') \<and>
    is_password_input (cn_session c) \<and> \<not> client_echo c"
proof -
  let ?r = "fold (conn_step example_cx) [Incoming example_am (Received (Line (lit ''alice'')))]
      (conn_new (cx_registry example_cx) banner_writer, example_shared)"
  have w: "w_sent banner_writer = encode (BANNER @ initial_prompt)"
    by (simp add: banner_writer_def)
  have r: "?r = (fst ?r, snd ?r)"
    by simp
  have p: "is_password_input (cn_session (fst ?r))" and o: "\<not> cn_closing (fst ?r)"
    by code_simp+
  from echo_off_exactly_for_passwords [OF w r o] p have "\<not> client_echo (fst ?r)"
    by blast
  with r p show ?thesis by blast
qed

text \<open>
  C17: failed attempts. A connection never counts more failed attempts than the configured
  limit (a limit of zero allowing one), so the 32-bit counter never overflows, and once the
  limit is reached it has left its loop.
\<close>

theorem attempts_bounded:
  assumes "w_sent w = encode (BANNER @ initial_prompt)"
    and "fold (conn_step cx) es (conn_new reg w, sh) = (c, sh')"
  shows "unat (cn_auth_failures c) \<le> max 1 (unat (cx_max_login_attempts cx)) \<and>
    (max 1 (unat (cx_max_login_attempts cx)) \<le> unat (cn_auth_failures c) \<longrightarrow> cn_closing c)"
  using conn_run_ok [OF assms(1), of cx es reg sh] assms(2)
  by (auto simp: conn_ok_def open_ok_def attempts_def)

theorem attempts_bounded_witness:
  "unat (cn_auth_failures (fst (fold (conn_step example_cx)
      [Incoming example_am (Received (Line (lit ''alice''))), Incoming example_am (Received (Line (lit ''no'')))]
      (conn_new (cx_registry example_cx) (writer_new []\<lparr>w_sent := encode (BANNER @ initial_prompt)\<rparr>), example_shared))))
    \<le> max 1 (unat (cx_max_login_attempts example_cx))"
proof -
  let ?w = "writer_new []\<lparr>w_sent := encode (BANNER @ initial_prompt)\<rparr>"
  let ?r = "fold (conn_step example_cx)
      [Incoming example_am (Received (Line (lit ''alice''))), Incoming example_am (Received (Line (lit ''no'')))]
      (conn_new (cx_registry example_cx) ?w, example_shared)"
  have w: "w_sent ?w = encode (BANNER @ initial_prompt)"
    by simp
  have "?r = (fst ?r, snd ?r)"
    by simp
  from attempts_bounded [OF w this] show ?thesis by blast
qed

text \<open>
  C33: after any events of a connection that began with the banner, the username and the password
  that its session hands on for verification when a line comes in are trimmed, not blank and
  not one of the words that end a session, in any letter case; the password is that line,
  trimmed.
\<close>

theorem credentials_handed_on:
  assumes "w_sent w = encode (BANNER @ initial_prompt)"
    and "fold (conn_step cx) es (conn_new reg w, sh) = (c, sh')"
    and "handle_input (cn_session c) l = AuthPending u p"
  shows "(\<forall>t \<in> {u, p}. trim t = t \<and> t \<noteq> [] \<and>
      to_ascii_lowercase t \<notin> {lit ''quit'', lit ''exit'', lit ''bye'', lit ''disconnect''}) \<and>
    p = trim l"
proof -
  have "session_ok (cn_session c)"
    using conn_run_ok [OF assms(1), of cx es reg sh] assms(2) by (simp add: conn_ok_def)
  then show ?thesis
    using credentials_of_session [OF _ assms(3)]
    by (auto simp: credential_text_def is_session_terminator_def simp del: lit_simps)
qed

theorem credentials_handed_on_witness:
  "\<exists>c sh'. fold (conn_step example_cx) [Incoming example_am (Received (Line (lit '' alice '')))]
      (conn_new (cx_registry example_cx) banner_writer, example_shared) = (c, sh') \<and>
    handle_input (cn_session c) (lit '' pw '') = AuthPending (lit ''alice'') (lit ''pw'') \<and>
    trim (lit ''alice'') = lit ''alice''"
proof -
  let ?r = "fold (conn_step example_cx) [Incoming example_am (Received (Line (lit '' alice '')))]
      (conn_new (cx_registry example_cx) banner_writer, example_shared)"
  have w: "w_sent banner_writer = encode (BANNER @ initial_prompt)"
    by (simp add: banner_writer_def)
  have h: "handle_input (cn_session (fst ?r)) (lit '' pw '') = AuthPending (lit ''alice'') (lit ''pw'')"
    by code_simp
  have "?r = (fst ?r, snd ?r)"
    by simp
  from credentials_handed_on [OF w this h] h show ?thesis
    by (intro exI [of _ "fst ?r"] exI [of _ "snd ?r"]) simp
qed

text \<open>
  C2: nobody is let in without a verified password. A step of a connection that takes its
  session into world selection for an account is the handling of a line while a password for
  some username was awaited, and the store verified that username with that line, trimmed,
  and gave that account.
\<close>

theorem world_selection_needs_verified_password:
  assumes "conn_step cx e (c, sh) = (c', sh')"
    and "ses_state (cn_session c') = WorldSelection a" and "ses_state (cn_session c) \<noteq> WorldSelection a"
  shows "\<exists>am l u. e = Incoming am (Received (Line l)) \<and> ses_state (cn_session c) = Authenticating (Some u) \<and>
    fst (verify_credentials (cx_services cx) (am_verify_fault am) u (trim l) (sh_store sh)) = Inr (Some a)"
  using login_step_origin [OF assms] by blast

definition awaiting_password :: conn where
  "awaiting_password = (conn_new (cx_registry example_cx) (writer_new []))
    \<lparr>cn_session := \<lparr>ses_state = Authenticating (Some (lit ''alice'')), ses_registry = cx_registry example_cx\<rparr>,
     cn_writer := (writer_new [])\<lparr>w_sent := IAC_WILL_ECHO\<rparr>\<rparr>"

theorem world_selection_needs_verified_password_witness:
  "\<exists>am l u. Incoming example_am (Received (Line (lit ''pw''))) = Incoming am (Received (Line l)) \<and>
    ses_state (cn_session awaiting_password) = Authenticating (Some u) \<and>
    fst (verify_credentials (cx_services example_cx) (am_verify_fault am) u (trim l) (sh_store example_shared)) =
      Inr (Some (account_of_row plain_services alice_row))"
proof (rule world_selection_needs_verified_password)
  let ?r = "conn_step example_cx (Incoming example_am (Received (Line (lit ''pw'')))) (awaiting_password, example_shared)"
  show "?r = (fst ?r, snd ?r)"
    by simp
  show "ses_state (cn_session (fst ?r)) = WorldSelection (account_of_row plain_services alice_row)"
    by code_simp
  show "ses_state (cn_session awaiting_password) \<noteq> WorldSelection (account_of_row plain_services alice_row)"
    by (simp add: awaiting_password_def)
qed

text \<open>
  The handler returns an error only when the banner cannot be sent. An address that is
  throttled is sent the notice and nothing else, and every other failure, of a write, of a
  read or of the store, ends the connection without one.
\<close>

theorem error_only_for_banner:
  assumes "handle_connection cx now1 now2 es w sh = (Some (Inl err), w', sh')"
  shows "\<not> fst (is_throttled (cx_imin cx) now1 now2 (cx_ip cx) (sh_limiter sh)) \<and>
    (\<exists>e n rest. w_faults w = Some (e, n) # rest \<and> err = Io e \<and>
      w_sent w' = w_sent w @ take n (encode (BANNER @ initial_prompt)) \<and> w_shut w' = w_shut w)"
  using assms
  by (auto simp: handle_connection_def write_raw_def error_from_io_def Let_def prod.case_eq_if
      split: if_splits list.splits option.splits)

theorem error_only_for_banner_witness:
  "\<not> fst (is_throttled (cx_imin example_cx) 100 100 (cx_ip example_cx) (sh_limiter example_shared)) \<and>
    (\<exists>e n rest. w_faults (writer_new [Some (lit ''reset'', 2)]) = Some (e, n) # rest \<and> Io (lit ''reset'') = Io e \<and>
      w_sent ((writer_new [])\<lparr>w_sent := take 2 (encode (BANNER @ initial_prompt))\<rparr>) =
        w_sent (writer_new [Some (lit ''reset'', 2)]) @ take n (encode (BANNER @ initial_prompt)) \<and>
      w_shut ((writer_new [])\<lparr>w_sent := take 2 (encode (BANNER @ initial_prompt))\<rparr>) =
        w_shut (writer_new [Some (lit ''reset'', 2)]))"
proof (rule error_only_for_banner)
  show "handle_connection example_cx 100 100 [] (writer_new [Some (lit ''reset'', 2)]) example_shared =
    (Some (Inl (Io (lit ''reset''))), (writer_new [])\<lparr>w_sent := take 2 (encode (BANNER @ initial_prompt))\<rparr>,
     example_shared)"
    by (simp add: handle_connection_def write_raw_def writer_new_def example_shared_def example_cx_def
        is_throttled_def error_from_io_def del: encode_append lit_simps)
qed

text \<open>
  Leaving while a password is awaited. A word that ends the session turns the client's
  echo back on before the farewell, but a shutdown of the server, a buffer overflow and the
  end of the stream leave the connection with the client's echo off.
\<close>

theorem echo_left_off_on_abrupt_end:
  assumes "conn_ok limit c" and "\<not> cn_closing c" and "is_password_input (cn_session c)"
    and "w_faults (cn_writer c) = []"
  shows "(\<forall>l. is_session_terminator l \<longrightarrow>
      client_echo (fst (conn_step cx (Incoming am (Received (Line l))) (c, sh)))) \<and>
    (\<forall>inc \<in> {Cancelled, Failed_read (BufferOverflow m), End_of_stream}.
      cn_closing (fst (conn_step cx (Incoming am inc) (c, sh))) \<and>
      \<not> client_echo (fst (conn_step cx (Incoming am inc) (c, sh))))"
proof (intro conjI allI impI)
  have e: "whole (w_sent (cn_writer c))" "\<not> echo_after True (w_sent (cn_writer c))"
    using assms(1-3) by (auto simp: conn_ok_def open_ok_def)
  fix l
  assume "is_session_terminator l"
  then have "handle_input (cn_session c) l = Disconnect GOODBYE_MSG"
    by (rule_tac handle_input_cases [of l "cn_session c"])
       (auto simp: credential_text_def dest: terminator_not_empty)
  then show "client_echo (fst (conn_step cx (Incoming am (Received (Line l))) (c, sh)))"
    using assms(2-4) e
    by (simp add: client_echo_def on_line_def Let_def on_disconnect_def send_no_faults
        echo_whole_append whole_append)
next
  have e: "whole (w_sent (cn_writer c))" "\<not> echo_after True (w_sent (cn_writer c))"
    using assms(1-3) by (auto simp: conn_ok_def open_ok_def)
  then show "\<forall>inc \<in> {Cancelled, Failed_read (BufferOverflow m), End_of_stream}.
      cn_closing (fst (conn_step cx (Incoming am inc) (c, sh))) \<and>
      \<not> client_echo (fst (conn_step cx (Incoming am inc) (c, sh)))"
    using assms(2,4) by (simp add: client_echo_def send_no_faults echo_whole_append)
qed

theorem echo_left_off_on_abrupt_end_witness:
  "cn_closing (fst (conn_step example_cx (Incoming example_am Cancelled) (awaiting_password, example_shared))) \<and>
   \<not> client_echo (fst (conn_step example_cx (Incoming example_am Cancelled) (awaiting_password, example_shared)))"
proof -
  have "session_ok (cn_session awaiting_password)"
    by code_simp
  then have "conn_ok 3 awaiting_password"
    by (simp add: conn_ok_def open_ok_def awaiting_password_def conn_new_def is_password_input_def attempts_def)
  moreover have "\<not> cn_closing awaiting_password" "is_password_input (cn_session awaiting_password)"
    "w_faults (cn_writer awaiting_password) = []"
    by (simp_all add: awaiting_password_def conn_new_def is_password_input_def writer_new_def)
  ultimately show ?thesis
    using echo_left_off_on_abrupt_end [of 3 awaiting_password example_cx example_am example_shared 5]
    by blast
qed

end
