(* ===== verification/Config.thy ===== *)
theory Config
  imports Accounts
begin

text \<open>
  The configuration of \<open>crates/liaozhai-server/src/config.rs\<close>: the sections and
  their defaults, the decoding of a file in which any key may be missing
  (\<open>#[serde(default)]\<close>: a missing section or key takes the value of the default), and
  \<open>load\<close> with the command line's overrides. Decoding TOML is a parameter that returns
  which keys the file gives. An \<open>anyhow\<close> error is the list of its contexts, the
  outermost first, ending in the text of its cause. A \<open>Duration\<close> is in nanoseconds.
\<close>

type_synonym anyhow = "ustr list"

definition with_context :: "ustr \<Rightarrow> ustr + 'a \<Rightarrow> anyhow + 'a" where
  "with_context msg r = map_err (\<lambda>e. [msg, e]) r"

definition context_of :: "ustr \<Rightarrow> anyhow + 'a \<Rightarrow> anyhow + 'a" where
  "context_of msg r = map_err (Cons msg) r"

definition from_error :: "ustr \<Rightarrow> error + 'a \<Rightarrow> anyhow + 'a" where
  "from_error msg r = map_err (\<lambda>e. [msg, error_display e]) r"

section \<open>Sections and defaults\<close>

record server_config =
  sc_bind_address :: ustr
  sc_port :: u16
  sc_max_connections :: nat
  sc_shutdown_drain_secs :: u64

record auth_config =
  ac_db_path :: ustr
  ac_max_login_attempts :: u32
  ac_argon2_memory_cost :: u32
  ac_argon2_time_cost :: u32
  ac_argon2_parallelism :: u32
  ac_rate_limit_window_secs :: u64
  ac_rate_limit_max_failures :: nat
  ac_rate_limiter_max_entries :: nat

record app_config =
  cfg_server :: server_config
  cfg_auth :: auth_config
  cfg_registry_path :: ustr
  cfg_default_filter :: ustr

definition server_config_default :: server_config where
  "server_config_default =
    \<lparr>sc_bind_address = DEFAULT_BIND_ADDRESS, sc_port = DEFAULT_PORT,
     sc_max_connections = DEFAULT_MAX_CONNECTIONS,
     sc_shutdown_drain_secs = DEFAULT_SHUTDOWN_DRAIN_SECS\<rparr>"

definition auth_config_default :: auth_config where
  "auth_config_default =
    \<lparr>ac_db_path = lit ''./data/accounts.db'', ac_max_login_attempts = DEFAULT_MAX_LOGIN_ATTEMPTS,
     ac_argon2_memory_cost = DEFAULT_ARGON2_MEMORY_COST,
     ac_argon2_time_cost = DEFAULT_ARGON2_TIME_COST,
     ac_argon2_parallelism = DEFAULT_ARGON2_PARALLELISM,
     ac_rate_limit_window_secs = DEFAULT_RATE_LIMIT_WINDOW_SECS,
     ac_rate_limit_max_failures = DEFAULT_RATE_LIMIT_MAX_FAILURES,
     ac_rate_limiter_max_entries = DEFAULT_RATE_LIMITER_MAX_ENTRIES\<rparr>"

definition worlds_config_default :: ustr where
  "worlds_config_default = lit ''./data/worlds.toml''"

definition logging_config_default :: ustr where
  "logging_config_default = DEFAULT_LOG_FILTER"

definition app_config_default :: app_config where
  "app_config_default =
    \<lparr>cfg_server = server_config_default, cfg_auth = auth_config_default,
     cfg_registry_path = worlds_config_default, cfg_default_filter = logging_config_default\<rparr>"

definition argon2_params_of :: "auth_config \<Rightarrow> argon2_params" where
  "argon2_params_of a =
    argon2_params_new (ac_argon2_memory_cost a) (ac_argon2_time_cost a) (ac_argon2_parallelism a)"

definition rate_limit_window :: "auth_config \<Rightarrow> int" where
  "rate_limit_window a = uint (ac_rate_limit_window_secs a) * 1000000000"

section \<open>Files in which keys may be missing\<close>

record server_keys =
  sk_bind_address :: "ustr option"
  sk_port :: "u16 option"
  sk_max_connections :: "nat option"
  sk_shutdown_drain_secs :: "u64 option"

record auth_keys =
  ak_db_path :: "ustr option"
  ak_max_login_attempts :: "u32 option"
  ak_argon2_memory_cost :: "u32 option"
  ak_argon2_time_cost :: "u32 option"
  ak_argon2_parallelism :: "u32 option"
  ak_rate_limit_window_secs :: "u64 option"
  ak_rate_limit_max_failures :: "nat option"
  ak_rate_limiter_max_entries :: "nat option"

record file_keys =
  fk_server :: "server_keys option"
  fk_auth :: "auth_keys option"
  fk_registry_path :: "ustr option option"
  fk_default_filter :: "ustr option option"

definition or_default :: "'a option \<Rightarrow> 'a \<Rightarrow> 'a" where
  "or_default v d = (case v of Some x \<Rightarrow> x | None \<Rightarrow> d)"

definition server_config_of :: "server_keys \<Rightarrow> server_config" where
  "server_config_of k =
    \<lparr>sc_bind_address = or_default (sk_bind_address k) (sc_bind_address server_config_default),
     sc_port = or_default (sk_port k) (sc_port server_config_default),
     sc_max_connections = or_default (sk_max_connections k) (sc_max_connections server_config_default),
     sc_shutdown_drain_secs =
       or_default (sk_shutdown_drain_secs k) (sc_shutdown_drain_secs server_config_default)\<rparr>"

definition auth_config_of :: "auth_keys \<Rightarrow> auth_config" where
  "auth_config_of k =
    \<lparr>ac_db_path = or_default (ak_db_path k) (ac_db_path auth_config_default),
     ac_max_login_attempts = or_default (ak_max_login_attempts k) (ac_max_login_attempts auth_config_default),
     ac_argon2_memory_cost = or_default (ak_argon2_memory_cost k) (ac_argon2_memory_cost auth_config_default),
     ac_argon2_time_cost = or_default (ak_argon2_time_cost k) (ac_argon2_time_cost auth_config_default),
     ac_argon2_parallelism = or_default (ak_argon2_parallelism k) (ac_argon2_parallelism auth_config_default),
     ac_rate_limit_window_secs =
       or_default (ak_rate_limit_window_secs k) (ac_rate_limit_window_secs auth_config_default),
     ac_rate_limit_max_failures =
       or_default (ak_rate_limit_max_failures k) (ac_rate_limit_max_failures auth_config_default),
     ac_rate_limiter_max_entries =
       or_default (ak_rate_limiter_max_entries k) (ac_rate_limiter_max_entries auth_config_default)\<rparr>"

definition app_config_of :: "file_keys \<Rightarrow> app_config" where
  "app_config_of k =
    \<lparr>cfg_server = or_default (map_option server_config_of (fk_server k)) server_config_default,
     cfg_auth = or_default (map_option auth_config_of (fk_auth k)) auth_config_default,
     cfg_registry_path = or_default (or_default (fk_registry_path k) None) worlds_config_default,
     cfg_default_filter = or_default (or_default (fk_default_filter k) None) logging_config_default\<rparr>"

section \<open>Loading\<close>

record overrides =
  ov_port :: "u16 option"
  ov_bind_address :: "ustr option"

definition overrides_default :: overrides where
  "overrides_default = \<lparr>ov_port = None, ov_bind_address = None\<rparr>"

definition apply_overrides :: "overrides \<Rightarrow> app_config \<Rightarrow> app_config" where
  "apply_overrides ov cfg =
    (let cfg1 = (case ov_port ov of
           Some port \<Rightarrow> cfg\<lparr>cfg_server := (cfg_server cfg)\<lparr>sc_port := port\<rparr>\<rparr>
         | None \<Rightarrow> cfg)
     in case ov_bind_address ov of
          Some bind \<Rightarrow> cfg1\<lparr>cfg_server := (cfg_server cfg1)\<lparr>sc_bind_address := bind\<rparr>\<rparr>
        | None \<Rightarrow> cfg1)"

definition load :: "(ustr \<Rightarrow> ustr + ustr) \<Rightarrow> (ustr \<Rightarrow> ustr + file_keys) \<Rightarrow> ustr option \<Rightarrow> overrides
    \<Rightarrow> anyhow + app_config" where
  "load read_to_string toml_from_str config_path ov =
    and_then
      (case config_path of
         Some path \<Rightarrow>
           and_then (with_context (lit ''reading config file: '' @ path) (read_to_string path))
             (\<lambda>contents.
               and_then (with_context (lit ''parsing config file: '' @ path) (toml_from_str contents))
                 (\<lambda>keys. Inr (app_config_of keys)))
       | None \<Rightarrow> Inr app_config_default)
      (\<lambda>cfg. Inr (apply_overrides ov cfg))"

lemma or_default_simps [simp]: "or_default (Some x) d = x" "or_default None d = d"
  by (simp_all add: or_default_def)

lemma map_err_maps [simp]:
  "with_context msg (Inr x) = Inr x" "with_context msg (Inl e) = Inl [msg, e]"
  "context_of msg (Inr x) = Inr x" "context_of msg (Inl es) = Inl (msg # es)"
  "from_error msg (Inr x) = Inr x" "from_error msg (Inl err) = Inl [msg, error_display err]"
  by (simp_all add: with_context_def context_of_def from_error_def)

lemma apply_overrides_sel [simp]:
  "cfg_auth (apply_overrides ov cfg) = cfg_auth cfg"
  "cfg_registry_path (apply_overrides ov cfg) = cfg_registry_path cfg"
  "cfg_default_filter (apply_overrides ov cfg) = cfg_default_filter cfg"
  "cfg_server (apply_overrides ov cfg) =
    (cfg_server cfg)\<lparr>sc_port := or_default (ov_port ov) (sc_port (cfg_server cfg)),
      sc_bind_address := or_default (ov_bind_address ov) (sc_bind_address (cfg_server cfg))\<rparr>"
  by (simp_all add: apply_overrides_def Let_def or_default_def split: option.split)

text \<open>What the file says of one key, if there is a file and it has the section and the key.\<close>

definition file_port :: "file_keys option \<Rightarrow> u16 option" where
  "file_port f = Option.bind (Option.bind f fk_server) sk_port"

definition file_bind :: "file_keys option \<Rightarrow> ustr option" where
  "file_bind f = Option.bind (Option.bind f fk_server) sk_bind_address"

definition config_from :: "file_keys option \<Rightarrow> app_config" where
  "config_from f = (case f of Some keys \<Rightarrow> app_config_of keys | None \<Rightarrow> app_config_default)"

lemma config_from_server:
  "sc_port (cfg_server (config_from f)) = or_default (file_port f) DEFAULT_PORT"
  "sc_bind_address (cfg_server (config_from f)) = or_default (file_bind f) DEFAULT_BIND_ADDRESS"
proof -
  have "(f = None \<or> (\<exists>k. f = Some k \<and> fk_server k = None)) \<or> (\<exists>k s. f = Some k \<and> fk_server k = Some s)"
    by (cases f; cases "fk_server (the f)") auto
  then show "sc_port (cfg_server (config_from f)) = or_default (file_port f) DEFAULT_PORT"
    "sc_bind_address (cfg_server (config_from f)) = or_default (file_bind f) DEFAULT_BIND_ADDRESS"
    by (auto simp: config_from_def app_config_of_def app_config_default_def server_config_of_def
        server_config_default_def file_port_def file_bind_def)
qed

lemma load_Inr:
  "load rd ts path ov = Inr cfg \<longleftrightarrow>
    (\<exists>f. cfg = apply_overrides ov (config_from f) \<and>
      (case path of None \<Rightarrow> f = None
       | Some p \<Rightarrow> \<exists>content keys. rd p = Inr content \<and> ts content = Inr keys \<and> f = Some keys))"
proof (cases path)
  case None
  then show ?thesis by (auto simp: load_def config_from_def)
next
  case (Some p)
  show ?thesis
  proof (cases "rd p")
    case (Inl e)
    with Some show ?thesis by (simp add: load_def)
  next
    case (Inr content)
    with Some show ?thesis
      by (cases "ts content") (auto simp: load_def config_from_def)
  qed
qed

section \<open>The filter of the log\<close>

text \<open>
  \<open>init_tracing\<close>: the filter the subscriber is started with, the one of the environment if
  it can be read and the configured one otherwise. Making a filter is the library's.
\<close>

definition init_tracing :: "(ustr + 'f) \<Rightarrow> (ustr \<Rightarrow> 'f) \<Rightarrow> ustr \<Rightarrow> 'f" where
  "init_tracing try_from_default_env env_filter_new default_filter =
    (case try_from_default_env of Inr f \<Rightarrow> f | Inl _ \<Rightarrow> env_filter_new default_filter)"

end
