(* ===== verification/Server.thy ===== *)
theory Server
  imports Config ConnectionInv
begin

text \<open>
  The listener of \<open>crates/liaozhai-server/src/listener.rs\<close>: the startup of
  \<open>run\<close> in its order, and the accept loop with its semaphore, the tasks it spawns, the
  shutdown token and the drain, as a labelled step relation on the state of the server. A
  task first checks its address and sends the banner, then takes the steps of
  \<open>conn_step\<close>; the steps of all tasks interleave and share the store and the limiter. A
  task holds its permit until it ends.
\<close>

section \<open>Startup\<close>

text \<open>What the surroundings answer during startup.\<close>

record ('p, 'h) world_outside =
  wo_services :: "('p, 'h) services"
  wo_path_parent :: "ustr \<Rightarrow> ustr option"
  wo_mkdir_fault :: "ustr option"
  wo_open_fault :: "ustr option"
  wo_schema_fault :: "ustr option"
  wo_rows :: "row list"
  wo_salt :: ustr
  wo_read_to_string :: "ustr \<Rightarrow> ustr + ustr"
  wo_toml_worlds :: "ustr \<Rightarrow> ustr + world_entry_dto list"
  wo_fresh :: "nat \<Rightarrow> uuid"
  wo_bind :: "ustr \<Rightarrow> ustr option"
  wo_order :: "failure_map \<Rightarrow> failure_map"
  wo_imin :: int

definition open_store :: "('p, 'h) world_outside \<Rightarrow> auth_config \<Rightarrow> error + store" where
  "open_store wo ac =
    store_open (wo_services wo) (wo_path_parent wo (ac_db_path ac)) (wo_mkdir_fault wo)
      (wo_open_fault wo) (wo_schema_fault wo) (wo_rows wo) (wo_salt wo) (argon2_params_of ac)"

datatype task =
    Starting ip_addr writer
  | Serving ip_addr conn

record ('p, 'h) server =
  sv_cx :: "('p, 'h) session_context"
  sv_shared :: shared
  sv_permits :: nat
  sv_tasks :: "(nat \<times> task) list"
  sv_next :: nat
  sv_refused :: "writer list"
  sv_ended :: "(nat \<times> writer) list"
  sv_cancelled :: bool
  sv_accepting :: bool
  sv_stopped :: bool

text \<open>
  \<open>run\<close> up to the accept loop: the store is opened before the world file is read, and
  the address is bound last.
\<close>

definition server_start :: "('p, 'h) world_outside \<Rightarrow> app_config \<Rightarrow> anyhow + ('p, 'h) server" where
  "server_start wo cfg =
    (let addr = sc_bind_address (cfg_server cfg) @ [58] @
           usize_to_string (unat (sc_port (cfg_server cfg)))
     in and_then (from_error (lit ''opening account store'') (open_store wo (cfg_auth cfg)))
       (\<lambda>st.
         let limiter = rate_limiter_new (rate_limit_window (cfg_auth cfg))
               (ac_rate_limit_max_failures (cfg_auth cfg)) (ac_rate_limiter_max_entries (cfg_auth cfg))
         in and_then
           (from_error (lit ''loading world registry'')
             (load_from_toml (wo_read_to_string wo) (wo_toml_worlds wo) (wo_fresh wo) (cfg_registry_path cfg)))
           (\<lambda>reg.
             case wo_bind wo addr of
               Some e \<Rightarrow> Inl [lit ''binding TCP listener to '' @ addr, e]
             | None \<Rightarrow>
                 Inr \<lparr>sv_cx =
                       \<lparr>cx_services = wo_services wo, cx_registry = reg,
                        cx_max_login_attempts = ac_max_login_attempts (cfg_auth cfg),
                        cx_order = wo_order wo, cx_imin = wo_imin wo, cx_ip = V4 0\<rparr>,
                      sv_shared = \<lparr>sh_store = st, sh_limiter = limiter\<rparr>,
                      sv_permits = sc_max_connections (cfg_server cfg),
                      sv_tasks = [], sv_next = 0, sv_refused = [], sv_ended = [],
                      sv_cancelled = False, sv_accepting = True,
                      sv_stopped = False\<rparr>)))"

section \<open>The accept loop and the tasks\<close>

text \<open>
  The labels: an accepted or failed connection attempt, the first step of a task with the
  instants its address check reads, a step of a task with what came in, the end of a task,
  the shutdown signal, the loop seeing it, and the two ends of the drain.
\<close>

datatype label =
    Accept ip_addr "(ustr \<times> nat) option list"
  | Accept_failed
  | Begin nat instant instant
  | Serve nat ambient incoming
  | Finish nat
  | Cancel
  | Leave_loop
  | Drained
  | Drain_timeout

definition at_ip :: "('p, 'h) session_context \<Rightarrow> ip_addr \<Rightarrow> ('p, 'h) session_context" where
  "at_ip cx ip = cx\<lparr>cx_ip := ip\<rparr>"

definition reject :: "writer \<Rightarrow> writer" where
  "reject w = writer_shutdown (snd (write_raw (encode SERVER_FULL_MSG) w))"

definition set_task :: "nat \<Rightarrow> task \<Rightarrow> (nat \<times> task) list \<Rightarrow> (nat \<times> task) list" where
  "set_task i t ts = map (\<lambda>(j, u). if j = i then (j, t) else (j, u)) ts"

text \<open>A task that ends returns its permit. What its client was sent is kept on record.\<close>

definition end_task :: "nat \<Rightarrow> writer \<Rightarrow> ('p, 'h) server \<Rightarrow> ('p, 'h) server" where
  "end_task i w s =
    s\<lparr>sv_tasks := filter (\<lambda>(j, t). j \<noteq> i) (sv_tasks s), sv_permits := sv_permits s + 1,
      sv_ended := sv_ended s @ [(i, w)]\<rparr>"

text \<open>
  The first part of a task, as in \<open>handle_connection\<close>: a throttled address and a
  banner that cannot be sent end the task, otherwise it serves.
\<close>

definition begin_task :: "nat \<Rightarrow> instant \<Rightarrow> instant \<Rightarrow> ip_addr \<Rightarrow> writer \<Rightarrow> ('p, 'h) server
    \<Rightarrow> ('p, 'h) server" where
  "begin_task i now1 now2 ip w s =
    (case is_throttled (cx_imin (sv_cx s)) now1 now2 ip (sh_limiter (sv_shared s)) of
       (throttled, rl) \<Rightarrow>
         let s1 = s\<lparr>sv_shared := (sv_shared s)\<lparr>sh_limiter := rl\<rparr>\<rparr>
         in if throttled then
              end_task i (writer_shutdown (snd (write_raw (encode AUTH_RATE_LIMITED_MSG) w))) s1
            else
              (case write_raw (encode (BANNER @ initial_prompt)) w of
                 (Inl e, w1) \<Rightarrow> end_task i w1 s1
               | (Inr _, w1) \<Rightarrow>
                   s1\<lparr>sv_tasks := set_task i (Serving ip (conn_new (cx_registry (sv_cx s)) w1))
                        (sv_tasks s1)\<rparr>))"

definition serve_task :: "nat \<Rightarrow> ambient \<Rightarrow> incoming \<Rightarrow> ip_addr \<Rightarrow> conn \<Rightarrow> ('p, 'h) server
    \<Rightarrow> ('p, 'h) server" where
  "serve_task i am inc ip c s =
    (case conn_step (at_ip (sv_cx s) ip) (Incoming am inc) (c, sv_shared s) of
       (c', sh') \<Rightarrow>
         s\<lparr>sv_tasks := set_task i (Serving ip c') (sv_tasks s), sv_shared := sh'\<rparr>)"

text \<open>
  The \<open>select!\<close> of the loop and of each connection looks at the token first: once it
  is cancelled, nothing is accepted and a connection handles only the cancellation.
\<close>

inductive sv_step :: "label \<Rightarrow> ('p, 'h) server \<Rightarrow> ('p, 'h) server \<Rightarrow> bool" where
  accept: "sv_accepting s \<Longrightarrow> \<not> sv_cancelled s \<Longrightarrow> 0 < sv_permits s \<Longrightarrow>
    sv_step (Accept ip faults) s
      (s\<lparr>sv_permits := sv_permits s - 1,
         sv_tasks := sv_tasks s @ [(sv_next s, Starting ip (writer_new faults))],
         sv_next := sv_next s + 1\<rparr>)"
| refuse: "sv_accepting s \<Longrightarrow> \<not> sv_cancelled s \<Longrightarrow> sv_permits s = 0 \<Longrightarrow>
    sv_step (Accept ip faults) s (s\<lparr>sv_refused := sv_refused s @ [reject (writer_new faults)]\<rparr>)"
| accept_failed: "sv_accepting s \<Longrightarrow> \<not> sv_cancelled s \<Longrightarrow> sv_step Accept_failed s s"
| begin_conn: "(i, Starting ip w) \<in> set (sv_tasks s) \<Longrightarrow>
    sv_step (Begin i now1 now2) s (begin_task i now1 now2 ip w s)"
| serve: "(i, Serving ip c) \<in> set (sv_tasks s) \<Longrightarrow> \<not> cn_closing c \<Longrightarrow>
    (inc = Cancelled \<longleftrightarrow> sv_cancelled s) \<Longrightarrow>
    sv_step (Serve i am inc) s (serve_task i am inc ip c s)"
| finish: "(i, Serving ip c) \<in> set (sv_tasks s) \<Longrightarrow> cn_closing c \<Longrightarrow>
    sv_step (Finish i) s (end_task i (writer_shutdown (cn_writer c)) s)"
| cancel: "sv_step Cancel s (s\<lparr>sv_cancelled := True\<rparr>)"
| leave: "sv_accepting s \<Longrightarrow> sv_cancelled s \<Longrightarrow> sv_step Leave_loop s (s\<lparr>sv_accepting := False\<rparr>)"
| drained: "\<not> sv_accepting s \<Longrightarrow> sv_tasks s = [] \<Longrightarrow> sv_step Drained s (s\<lparr>sv_stopped := True\<rparr>)"
| timeout: "\<not> sv_accepting s \<Longrightarrow> sv_tasks s \<noteq> [] \<Longrightarrow>
    sv_step Drain_timeout s
      (s\<lparr>sv_tasks := [], sv_permits := sv_permits s + length (sv_tasks s), sv_stopped := True\<rparr>)"

inductive reachable :: "('p, 'h) server \<Rightarrow> ('p, 'h) server \<Rightarrow> bool" for s0 where
  start: "reachable s0 s0"
| step: "reachable s0 s \<Longrightarrow> sv_step l s s' \<Longrightarrow> reachable s0 s'"

inductive_cases sv_step_acceptE: "sv_step (Accept ip faults) s s'"
inductive_cases sv_step_serveE: "sv_step (Serve i am inc) s s'"
inductive_simps sv_step_cancel: "sv_step Cancel s s'"
inductive_simps sv_step_leave: "sv_step Leave_loop s s'"

section \<open>The signal handler\<close>

text \<open>
  The task spawned for the signals: it waits for the first SIGINT or SIGTERM among the signals
  that arrive, then cancels the token. None while it still waits.
\<close>

datatype os_signal = Sigint | Sigterm | Other_signal

fun wait_for_shutdown_signal :: "os_signal list \<Rightarrow> os_signal list option" where
  "wait_for_shutdown_signal [] = None"
| "wait_for_shutdown_signal (s # ss) =
    (if s = Sigint \<or> s = Sigterm then Some ss else wait_for_shutdown_signal ss)"

definition signal_handler :: "os_signal list \<Rightarrow> ('p, 'h) server \<Rightarrow> ('p, 'h) server" where
  "signal_handler signals s =
    (case wait_for_shutdown_signal signals of
       Some _ \<Rightarrow> s\<lparr>sv_cancelled := True\<rparr>
     | None \<Rightarrow> s)"

text \<open>To the server the handler is the label \<open>Cancel\<close>, at the first of the two signals.\<close>

lemma signal_handler_step:
  "if Sigint \<in> set signals \<or> Sigterm \<in> set signals then sv_step Cancel s (signal_handler signals s)
   else signal_handler signals s = s"
proof -
  have "wait_for_shutdown_signal signals = None \<longleftrightarrow> Sigint \<notin> set signals \<and> Sigterm \<notin> set signals"
    by (induction signals) auto
  then show ?thesis
    by (auto simp: signal_handler_def intro: sv_step.cancel split: option.splits)
qed

section \<open>Facts on tasks\<close>

lemma set_task_keys [simp]: "map fst (set_task i t ts) = map fst ts"
  by (induction ts) (auto simp: set_task_def)

lemma length_set_task [simp]: "length (set_task i t ts) = length ts"
  by (simp add: set_task_def)

lemma set_task_mem: "(j, u) \<in> set (set_task i t ts) \<Longrightarrow> (j = i \<and> u = t) \<or> (j, u) \<in> set ts"
  by (auto simp: set_task_def split: if_splits)

lemma end_task_length:
  assumes "distinct (map fst ts)" "(i, t) \<in> set ts"
  shows "Suc (length (filter (\<lambda>(j, t). j \<noteq> i) ts)) = length ts"
  using assms
proof (induction ts)
  case (Cons x ts)
  obtain j u where x: "x = (j, u)" by (cases x)
  show ?case
  proof (cases "j = i")
    case True
    then have "filter (\<lambda>(j, t). j \<noteq> i) ts = ts"
      using Cons.prems(1) x by (force simp: filter_id_conv)
    then show ?thesis using x True by simp
  next
    case False
    then show ?thesis using Cons x by simp
  qed
qed simp

section \<open>The invariant of the server\<close>

text \<open>
  Permits and tasks add up to the configured number of connections, task numbers are fresh,
  the store and the limiter keep their invariants, and every serving task its own.
\<close>

definition task_ok :: "u32 \<Rightarrow> task \<Rightarrow> bool" where
  "task_ok limit t = (case t of Starting ip w \<Rightarrow> w_sent w = [] | Serving ip c \<Rightarrow> conn_ok limit c)"

definition server_ok :: "nat \<Rightarrow> ('p, 'h) server \<Rightarrow> bool" where
  "server_ok n s =
    (sv_permits s + length (sv_tasks s) = n \<and>
     distinct (map fst (sv_tasks s)) \<and> (\<forall>i \<in> fst ` set (sv_tasks s). i < sv_next s) \<and>
     (\<forall>(i, t) \<in> set (sv_tasks s). task_ok (cx_max_login_attempts (sv_cx s)) t) \<and>
     store_ok (cx_services (sv_cx s)) (sh_store (sv_shared s)) \<and>
     keys_distinct (sh_limiter (sv_shared s)))"

definition shared_ok :: "('p, 'h) services \<Rightarrow> shared \<Rightarrow> bool" where
  "shared_ok svc sh = (store_ok svc (sh_store sh) \<and> keys_distinct (sh_limiter sh))"

text \<open>A step of a connection keeps the shared state in order, if the others do.\<close>

lemma check_keys: "keys_distinct rl \<Longrightarrow> keys_distinct (snd (is_throttled imin t1 t2 ip rl))"
  using rl_step_keys_distinct [of rl id imin "Checked ip t1 t2"] by simp

lemma apply_shared_ok: "shared_ok (cx_services cx) sh \<Longrightarrow> shared_ok (cx_services cx) (apply_shared cx op sh)"
  using rl_step_keys_distinct [of "sh_limiter sh"] store_machine.keeps [of "cx_services cx" "sh_store sh"]
  by (cases op) (simp_all add: shared_ok_def)

interpretation shared_machine: guarded_machine "apply_shared cx" "\<lambda>_ _. True" "shared_ok (cx_services cx)"
  for cx :: "('p, 'h) session_context"
  by unfold_locales (rule apply_shared_ok)

text \<open>
  All a connection does to the shared state are operations of the limiter and the store, on
  which the address it serves has no effect but to be their argument.
\<close>

definition by_ops :: "('p, 'h) session_context \<Rightarrow> shared \<Rightarrow> shared \<Rightarrow> bool" where
  "by_ops cx sh sh' = (\<exists>ops. sh' = fold (apply_shared cx) ops sh)"

lemma by_ops_refl [simp]: "by_ops cx sh sh"
  unfolding by_ops_def by (rule exI [of _ "[]"]) simp

lemma by_ops_one: "by_ops cx sh (apply_shared cx op sh)"
  unfolding by_ops_def by (rule exI [of _ "[op]"]) simp

lemma by_ops_trans: "by_ops cx sh1 sh2 \<Longrightarrow> by_ops cx sh2 sh3 \<Longrightarrow> by_ops cx sh1 sh3"
  unfolding by_ops_def by (metis fold_append comp_apply)

lemma by_ops_ok: "by_ops cx sh sh' \<Longrightarrow> shared_ok (cx_services cx) sh \<Longrightarrow> shared_ok (cx_services cx) sh'"
  unfolding by_ops_def by (auto intro: shared_machine.run_keeps_always)

lemma apply_shared_at_ip [simp]: "apply_shared (at_ip cx ip) = apply_shared cx"
proof (intro ext)
  show "apply_shared (at_ip cx ip) op sh = apply_shared cx op sh" for op sh
    by (cases op) (simp_all add: at_ip_def)
qed

lemma by_ops_at_ip [simp]: "by_ops (at_ip cx ip) = by_ops cx"
  by (simp add: by_ops_def fun_eq_iff)

lemma check_by_ops:
  "by_ops cx sh (sh\<lparr>sh_limiter := snd (is_throttled (cx_imin cx) t1 t2 ip (sh_limiter sh))\<rparr>)"
  using by_ops_one [of cx sh "On_limiter (Checked ip t1 t2)"] by simp

lemma meanwhile_by_ops: "by_ops cx sh (meanwhile cx am sh)"
  by (auto simp: meanwhile_def by_ops_def)

lemma on_success_by_ops: "by_ops cx sh (on_success cx am a sh)"
  using by_ops_trans [OF by_ops_one [of cx sh "On_limiter (Cleared (cx_ip cx))"]
      by_ops_one [of cx _ "On_store (Login (am_login_clock am) (am_login_fault am) (acc_id a))"]]
  by (simp add: on_success_def Let_def)

lemma on_failure_by_ops: "by_ops cx sh (on_failure cx am sh)"
  using by_ops_one [of cx sh "On_limiter (Failed (cx_ip cx) (am_now1 am) (am_now2 am) (am_now3 am))"]
  by (simp add: on_failure_def)

lemma on_auth_result_by_ops: "by_ops cx sh (snd (on_auth_result cx am res (c, sh)))"
  by (cases res) (simp_all add: on_auth_result_def Let_def on_success_by_ops on_failure_by_ops)

lemma on_auth_pending_by_ops: "by_ops cx sh (snd (on_auth_pending cx am u p (c, sh)))"
proof (rule send_cases [of IAC_WONT_ECHO c])
  fix w
  assume "send IAC_WONT_ECHO c = (Inr (), c\<lparr>cn_writer := w\<rparr>)"
  then show ?thesis
    using by_ops_trans [OF meanwhile_by_ops on_auth_result_by_ops] meanwhile_by_ops
    by (cases "fst (verify_credentials (cx_services cx) (am_verify_fault am) u p (sh_store sh))")
       (simp_all add: on_auth_pending_def)
qed (simp add: on_auth_pending_def)

lemma conn_step_by_ops: "by_ops cx sh (snd (conn_step cx (Incoming am inc) (c, sh)))"
proof -
  have "by_ops cx sh (snd (on_line cx am l (c, sh)))" for l
    by (simp add: on_line_def Let_def on_auth_pending_by_ops split: transition.split)
  then show ?thesis
    by (cases "(cx, am, inc, (c, sh))" rule: on_incoming.cases) auto
qed

lemma conn_step_shared_ok:
  "shared_ok (cx_services cx) sh \<Longrightarrow> shared_ok (cx_services cx) (snd (conn_step cx (Incoming am inc) (c, sh)))"
  by (rule by_ops_ok [OF conn_step_by_ops])

lemma sv_step_by_ops: "sv_step l s s' \<Longrightarrow> by_ops (sv_cx s) (sv_shared s) (sv_shared s')"
proof (induction rule: sv_step.induct)
  case (begin_conn i ip w s now1 now2)
  have "sv_shared (begin_task i now1 now2 ip w s) =
      (sv_shared s)\<lparr>sh_limiter := snd (is_throttled (cx_imin (sv_cx s)) now1 now2 ip (sh_limiter (sv_shared s)))\<rparr>"
    by (simp add: begin_task_def end_task_def prod.case_eq_if Let_def split: sum.split)
  then show ?case
    by (simp only: check_by_ops)
next
  case (serve i ip c s inc am)
  have "by_ops (sv_cx s) (sv_shared s)
      (snd (conn_step (at_ip (sv_cx s) ip) (Incoming am inc) (c, sv_shared s)))"
    using conn_step_by_ops [of "at_ip (sv_cx s) ip"] by simp
  then show ?case
    by (simp add: serve_task_def prod.case_eq_if del: conn_step.simps)
qed (simp_all add: end_task_def)

section \<open>The invariant holds in every reachable state\<close>

lemma server_ok_end_task:
  assumes "server_ok n s" "(i, t) \<in> set (sv_tasks s)"
  shows "server_ok n (end_task i w s)"
proof -
  have "Suc (length (filter (\<lambda>(j, t). j \<noteq> i) (sv_tasks s))) = length (sv_tasks s)"
    using assms by (intro end_task_length) (simp_all add: server_ok_def)
  then show ?thesis
    using assms(1) by (auto simp: server_ok_def end_task_def distinct_map_filter)
qed

lemma server_ok_set_task:
  assumes "server_ok n s" "task_ok (cx_max_login_attempts (sv_cx s)) t"
  shows "server_ok n (s\<lparr>sv_tasks := set_task i t (sv_tasks s)\<rparr>)"
proof -
  have "fst ` set (set_task i t (sv_tasks s)) = fst ` set (sv_tasks s)"
    by (metis list.set_map set_task_keys)
  then show ?thesis
    using assms by (auto simp: server_ok_def dest: set_task_mem)
qed

lemma server_ok_shared:
  "server_ok n s \<Longrightarrow> shared_ok (cx_services (sv_cx s)) sh \<Longrightarrow> server_ok n (s\<lparr>sv_shared := sh\<rparr>)"
  by (simp add: server_ok_def shared_ok_def)

lemma server_ok_begin:
  assumes "server_ok n s" "(i, Starting ip w) \<in> set (sv_tasks s)"
  shows "server_ok n (begin_task i now1 now2 ip w s)"
proof -
  let ?rl = "snd (is_throttled (cx_imin (sv_cx s)) now1 now2 ip (sh_limiter (sv_shared s)))"
  let ?s = "s\<lparr>sv_shared := (sv_shared s)\<lparr>sh_limiter := ?rl\<rparr>\<rparr>"
  have s1: "server_ok n ?s"
    using assms(1) by (intro server_ok_shared) (simp_all add: server_ok_def shared_ok_def check_keys)
  then have e: "server_ok n (end_task i v ?s)" for v
    using assms(2) by (intro server_ok_end_task) simp_all
  have w: "w_sent w = []"
    using assms by (auto simp: server_ok_def task_ok_def)
  show ?thesis
  proof (cases "write_raw (encode (BANNER @ initial_prompt)) w")
    case (Pair r w1)
    have "w_sent w1 = encode (BANNER @ initial_prompt)" if "r = Inr u" for u
      using Pair w that by (auto simp: write_raw_def split: list.splits option.splits)
    then have "r = Inr u \<Longrightarrow> task_ok (cx_max_login_attempts (sv_cx ?s))
        (Serving ip (conn_new (cx_registry (sv_cx s)) w1))" for u
      by (simp add: task_ok_def conn_new_ok del: encode_append)
    then have "r = Inr u \<Longrightarrow> server_ok n (?s\<lparr>sv_tasks := set_task i
        (Serving ip (conn_new (cx_registry (sv_cx s)) w1)) (sv_tasks ?s)\<rparr>)" for u
      using server_ok_set_task [OF s1] by blast
    then show ?thesis
      using e Pair by (cases r) (simp_all add: begin_task_def prod.case_eq_if Let_def)
  qed
qed

lemma server_ok_serve:
  assumes "server_ok n s" "(i, Serving ip c) \<in> set (sv_tasks s)"
  shows "server_ok n (serve_task i am inc ip c s)"
proof -
  let ?r = "conn_step (at_ip (sv_cx s) ip) (Incoming am inc) (c, sv_shared s)"
  have "conn_ok (cx_max_login_attempts (sv_cx s)) c"
    using assms by (auto simp: server_ok_def task_ok_def)
  then have "task_ok (cx_max_login_attempts (sv_cx s)) (Serving ip (fst ?r))"
    using conn_step_ok [of "cx_max_login_attempts (sv_cx s)" "(c, sv_shared s)" "at_ip (sv_cx s) ip" "Incoming am inc"]
    by (simp add: task_ok_def at_ip_def)
  moreover have "shared_ok (cx_services (sv_cx s)) (snd ?r)"
    using conn_step_shared_ok [of "at_ip (sv_cx s) ip" "sv_shared s" am inc c] assms(1)
    by (simp add: at_ip_def server_ok_def shared_ok_def)
  ultimately show ?thesis
    using server_ok_shared [OF server_ok_set_task [OF assms(1)]]
    by (simp add: serve_task_def prod.case_eq_if)
qed

lemma sv_step_ok: "sv_step l s s' \<Longrightarrow> server_ok n s \<Longrightarrow> server_ok n s'"
proof (induction rule: sv_step.induct)
  case (accept s ip faults)
  then show ?case
    by (auto simp: server_ok_def task_ok_def writer_new_def)
qed (auto simp: server_ok_begin server_ok_serve server_ok_end_task, auto simp: server_ok_def)

lemma sv_step_cx: "sv_step l s s' \<Longrightarrow> sv_cx s' = sv_cx s"
  by (induction rule: sv_step.induct)
     (simp_all add: begin_task_def serve_task_def end_task_def prod.case_eq_if Let_def split: sum.split)

lemma reachable_ok: "reachable s0 s \<Longrightarrow> server_ok n s0 \<Longrightarrow> server_ok n s \<and> sv_cx s = sv_cx s0"
  by (induction rule: reachable.induct) (auto dest: sv_step_ok sv_step_cx)

section \<open>Draining\<close>

text \<open>Runs of the server in which every label satisfies a condition.\<close>

inductive sv_run :: "(label \<Rightarrow> bool) \<Rightarrow> ('p, 'h) server \<Rightarrow> ('p, 'h) server \<Rightarrow> bool" for P where
  nothing: "sv_run P s s"
| more: "sv_step l s s' \<Longrightarrow> P l \<Longrightarrow> sv_run P s' s'' \<Longrightarrow> sv_run P s s''"

lemma sv_run_trans: "sv_run P s s' \<Longrightarrow> sv_run P s' s'' \<Longrightarrow> sv_run P s s''"
  by (induction rule: sv_run.induct) (auto intro: sv_run.more)

lemma sv_run_one: "sv_step l s s' \<Longrightarrow> P l \<Longrightarrow> sv_run P s s'"
  by (rule sv_run.more) (auto intro: sv_run.nothing)

text \<open>The labels of a connection ending by itself, without the timeout of the drain.\<close>

fun by_itself :: "label \<Rightarrow> bool" where
  "by_itself (Begin i t1 t2) = True"
| "by_itself (Serve i am inc) = True"
| "by_itself (Finish i) = True"
| "by_itself Drained = True"
| "by_itself _ = False"

definition shutting_down :: "('p, 'h) server \<Rightarrow> bool" where
  "shutting_down s = (sv_cancelled s \<and> \<not> sv_accepting s)"

definition without :: "nat \<Rightarrow> (nat \<times> task) list \<Rightarrow> (nat \<times> task) list" where
  "without i ts = filter (\<lambda>(j, t). j \<noteq> i) ts"

lemma without_set_task [simp]: "without i (set_task i t ts) = without i ts"
  by (induction ts) (auto simp: without_def set_task_def)

lemma set_task_in: "(i, u) \<in> set ts \<Longrightarrow> (i, t) \<in> set (set_task i t ts)"
  by (force simp: set_task_def)

lemma end_task_sel [simp]:
  "sv_tasks (end_task i w s) = without i (sv_tasks s)"
  "shutting_down (end_task i w s) = shutting_down s"
  by (simp_all add: end_task_def without_def shutting_down_def)

lemma cancelled_closes: "\<not> cn_closing c \<Longrightarrow> cn_closing (fst (conn_step cx (Incoming am Cancelled) (c, sh)))"
  by simp

lemma serving_ends:
  assumes "shutting_down s" "(i, Serving ip c) \<in> set (sv_tasks s)"
  shows "\<exists>s'. sv_run by_itself s s' \<and> shutting_down s' \<and> sv_tasks s' = without i (sv_tasks s)"
proof (cases "cn_closing c")
  case True
  let ?s' = "end_task i (writer_shutdown (cn_writer c)) s"
  have "sv_run by_itself s ?s'"
    using assms(2) True by (intro sv_run_one [OF sv_step.finish]) simp_all
  with assms(1) show ?thesis
    by (intro exI [of _ "?s'"]) simp
next
  case False
  fix am :: ambient
  let ?s1 = "serve_task i am Cancelled ip c s"
  let ?c1 = "fst (conn_step (at_ip (sv_cx s) ip) (Incoming am Cancelled) (c, sv_shared s))"
  have t1: "sv_tasks ?s1 = set_task i (Serving ip ?c1) (sv_tasks s)" "shutting_down ?s1"
    using assms(1) by (simp_all add: serve_task_def prod.case_eq_if shutting_down_def del: conn_step.simps)
  let ?s2 = "end_task i (writer_shutdown (cn_writer ?c1)) ?s1"
  have "sv_step (Serve i am Cancelled) s ?s1"
    using assms False by (intro sv_step.serve) (simp_all add: shutting_down_def)
  moreover have "sv_step (Finish i) ?s1 ?s2"
    using cancelled_closes [OF False] set_task_in [OF assms(2)]
    by (intro sv_step.finish [of i ip ?c1]) (simp_all only: t1)
  ultimately have "sv_run by_itself s (?s2)"
    by (intro sv_run.more [of "Serve i am Cancelled" s ?s1] sv_run_one [of "Finish i"]) simp_all
  then show ?thesis
    by (intro exI [of _ "?s2"]) (simp add: t1)
qed

lemma task_ends:
  assumes "shutting_down s" "(i, t) \<in> set (sv_tasks s)"
  shows "\<exists>s'. sv_run by_itself s s' \<and> shutting_down s' \<and> sv_tasks s' = without i (sv_tasks s)"
proof (cases t)
  case (Serving ip c)
  then show ?thesis
    using serving_ends [OF assms(1)] assms(2) by blast
next
  case (Starting ip w)
  let ?s1 = "begin_task i 0 0 ip w s"
  have run: "sv_run by_itself s ?s1"
    using assms(2) Starting by (intro sv_run_one [OF sv_step.begin_conn]) simp_all
  have "shutting_down ?s1"
    using assms(1) by (simp add: begin_task_def shutting_down_def end_task_def prod.case_eq_if Let_def
        split: sum.split)
  moreover have "sv_tasks ?s1 = without i (sv_tasks s) \<or>
      (\<exists>c. sv_tasks ?s1 = set_task i (Serving ip c) (sv_tasks s))"
    by (auto simp: begin_task_def prod.case_eq_if Let_def split: sum.split)
  ultimately show ?thesis
  proof (elim disjE exE)
    fix c
    assume sd: "shutting_down ?s1" and ts: "sv_tasks ?s1 = set_task i (Serving ip c) (sv_tasks s)"
    then obtain s' where "sv_run by_itself ?s1 s'" "shutting_down s'" "sv_tasks s' = without i (sv_tasks s)"
      using serving_ends [OF sd, of i ip c] set_task_in [OF assms(2)] by auto
    with run show ?thesis
      by (blast intro: sv_run_trans)
  qed (use run in blast)
qed

lemma length_without: "(i, t) \<in> set ts \<Longrightarrow> length (without i ts) < length ts"
  unfolding without_def by (rule length_filter_less) auto

lemma all_tasks_end:
  "shutting_down s \<Longrightarrow> \<exists>s'. sv_run by_itself s s' \<and> shutting_down s' \<and> sv_tasks s' = []"
proof (induction "length (sv_tasks s)" arbitrary: s rule: less_induct)
  case less
  show ?case
  proof (cases "sv_tasks s")
    case Nil
    with less.prems show ?thesis by (blast intro: sv_run.nothing)
  next
    case (Cons x ts)
    obtain i t where x: "(i, t) \<in> set (sv_tasks s)"
      using Cons by (cases x) auto
    obtain s1 where s1: "sv_run by_itself s s1" "shutting_down s1" "sv_tasks s1 = without i (sv_tasks s)"
      using task_ends [OF less.prems x] by blast
    then obtain s' where "sv_run by_itself s1 s'" "shutting_down s'" "sv_tasks s' = []"
      using less.hyps [of s1] length_without [OF x] by auto
    with s1(1) show ?thesis by (blast intro: sv_run_trans)
  qed
qed

lemma run_reachable: "sv_run P s s' \<Longrightarrow> reachable s0 s \<Longrightarrow> reachable s0 s'"
  by (induction rule: sv_run.induct) (auto intro: reachable.step)

end
