(* ===== verification/ServerTasks.thy ===== *)
theory ServerTasks
  imports Server
begin

text \<open>
  What a task of the server is: a run of \<open>handle_connection\<close> on its own, for which the
  other tasks are nothing but operations on the shared state between its steps. The relation
  \<open>serves\<close> states it for a task under way, \<open>served\<close> for one that has ended, and both are
  kept by every step of the server. A trace records the steps; what the address, the clock, the
  client and the socket contributed to a task is read off it.
\<close>

section \<open>Traces\<close>

type_synonym ('p, 'h) trace = "(label \<times> ('p, 'h) server) list"

text \<open>A trace holds the labels of the steps, each with the state it was taken in.\<close>

inductive happened :: "('p, 'h) server \<Rightarrow> ('p, 'h) trace \<Rightarrow> ('p, 'h) server \<Rightarrow> bool" for s0 where
  nothing: "happened s0 [] s0"
| then_step: "happened s0 tr s \<Longrightarrow> sv_step l s s' \<Longrightarrow> happened s0 (tr @ [(l, s)]) s'"

lemma reachable_happened: "reachable s0 s \<longleftrightarrow> (\<exists>tr. happened s0 tr s)"
proof
  show "reachable s0 s \<Longrightarrow> \<exists>tr. happened s0 tr s"
    by (induction rule: reachable.induct) (blast intro: happened.intros)+
  assume "\<exists>tr. happened s0 tr s"
  then obtain tr where "happened s0 tr s" by blast
  then show "reachable s0 s"
    by (induction rule: happened.induct) (blast intro: reachable.intros)+
qed

text \<open>
  The connections that were let in, in the order of their numbers; the readings of the clock at
  the start of a task; what its reader delivered to a task, with what surrounded each delivery.
\<close>

fun admission :: "label \<times> ('p, 'h) server \<Rightarrow> (ip_addr \<times> (ustr \<times> nat) option list) list" where
  "admission (Accept ip faults, s) = (if 0 < sv_permits s then [(ip, faults)] else [])"
| "admission (l, s) = []"

definition admitted :: "('p, 'h) trace \<Rightarrow> (ip_addr \<times> (ustr \<times> nat) option list) list" where
  "admitted tr = concat (map admission tr)"

fun beginning :: "nat \<Rightarrow> label \<Rightarrow> (instant \<times> instant) list" where
  "beginning i (Begin j now1 now2) = (if j = i then [(now1, now2)] else [])"
| "beginning i l = []"

definition begun :: "nat \<Rightarrow> ('p, 'h) trace \<Rightarrow> (instant \<times> instant) list" where
  "begun i tr = concat (map (\<lambda>(l, s). beginning i l) tr)"

fun delivery :: "nat \<Rightarrow> label \<Rightarrow> (ambient \<times> incoming) list" where
  "delivery i (Serve j am inc) = (if j = i then [(am, inc)] else [])"
| "delivery i l = []"

definition deliveries :: "nat \<Rightarrow> ('p, 'h) trace \<Rightarrow> (ambient \<times> incoming) list" where
  "deliveries i tr = concat (map (\<lambda>(l, s). delivery i l) tr)"

lemma trace_append [simp]:
  "admitted (tr @ [(l, s)]) = admitted tr @ admission (l, s)"
  "begun i (tr @ [(l, s)]) = begun i tr @ beginning i l"
  "deliveries i (tr @ [(l, s)]) = deliveries i tr @ delivery i l"
  "admitted [] = []" "begun i [] = []" "deliveries i [] = []"
  by (simp_all add: admitted_def begun_def deliveries_def)

text \<open>The events of a connection that are its own.\<close>

fun own_event :: "conn_event \<Rightarrow> (ambient \<times> incoming) list" where
  "own_event (Incoming am inc) = [(am, inc)]"
| "own_event (Elsewhere op) = []"

definition own :: "conn_event list \<Rightarrow> (ambient \<times> incoming) list" where
  "own evs = concat (map own_event evs)"

lemma own_simps [simp]:
  "own [] = []" "own (ev # evs) = own_event ev @ own evs" "own (evs @ evs') = own evs @ own evs'"
  "own (map Elsewhere ops) = []"
  by (simp_all add: own_def comp_def)

section \<open>A task as a run of the handler\<close>

text \<open>
  The connection has reached \<open>c\<close>, with the shared state now \<open>sh\<close>, by events of which \<open>items\<close> are
  its own, after an address check and a banner that both succeeded.
\<close>

definition serves :: "('p, 'h) session_context \<Rightarrow> (ustr \<times> nat) option list \<Rightarrow> instant \<times> instant
    \<Rightarrow> (ambient \<times> incoming) list \<Rightarrow> conn \<Rightarrow> shared \<Rightarrow> bool" where
  "serves cx faults now items c sh =
    (\<exists>sh0 rl u w events.
      is_throttled (cx_imin cx) (fst now) (snd now) (cx_ip cx) (sh_limiter sh0) = (False, rl) \<and>
      write_raw (encode (BANNER @ initial_prompt)) (writer_new faults) = (Inr u, w) \<and>
      fold (conn_step cx) events (conn_new (cx_registry cx) w, sh0\<lparr>sh_limiter := rl\<rparr>) = (c, sh) \<and>
      own events = items)"

definition served :: "('p, 'h) session_context \<Rightarrow> (ustr \<times> nat) option list \<Rightarrow> instant \<times> instant
    \<Rightarrow> (ambient \<times> incoming) list \<Rightarrow> writer \<Rightarrow> bool" where
  "served cx faults now items w =
    (\<exists>sh0 events res sh.
      handle_connection cx (fst now) (snd now) events (writer_new faults) sh0 = (Some res, w, sh) \<and>
      own events = items)"

lemma servesI:
  "is_throttled (cx_imin cx) now1 now2 (cx_ip cx) (sh_limiter sh0) = (False, rl) \<Longrightarrow>
   write_raw (encode (BANNER @ initial_prompt)) (writer_new faults) = (Inr u, w) \<Longrightarrow>
   fold (conn_step cx) events (conn_new (cx_registry cx) w, sh0\<lparr>sh_limiter := rl\<rparr>) = (c, sh) \<Longrightarrow>
   serves cx faults (now1, now2) (own events) c sh"
  unfolding serves_def by force

lemma servesE:
  assumes "serves cx faults now items c sh"
  obtains sh0 rl u w events where
    "is_throttled (cx_imin cx) (fst now) (snd now) (cx_ip cx) (sh_limiter sh0) = (False, rl)"
    "write_raw (encode (BANNER @ initial_prompt)) (writer_new faults) = (Inr u, w)"
    "fold (conn_step cx) events (conn_new (cx_registry cx) w, sh0\<lparr>sh_limiter := rl\<rparr>) = (c, sh)"
    "items = own events"
  using assms unfolding serves_def by blast

lemma servedI:
  "handle_connection cx now1 now2 events (writer_new faults) sh0 = (Some res, w, sh) \<Longrightarrow>
   served cx faults (now1, now2) (own events) w"
  unfolding served_def by force

lemma fold_elsewhere:
  "fold (conn_step cx) (map Elsewhere ops) (c, sh) = (c, fold (apply_shared cx) ops sh)"
  by (induction ops arbitrary: sh) simp_all

lemma serves_more:
  assumes "serves cx faults now items c sh" "fold (conn_step cx) events (c, sh) = (c', sh')"
  shows "serves cx faults now (items @ own events) c' sh'"
proof -
  obtain sh0 rl u w evs where
    start: "is_throttled (cx_imin cx) (fst now) (snd now) (cx_ip cx) (sh_limiter sh0) = (False, rl)"
      "write_raw (encode (BANNER @ initial_prompt)) (writer_new faults) = (Inr u, w)"
    and run: "fold (conn_step cx) evs (conn_new (cx_registry cx) w, sh0\<lparr>sh_limiter := rl\<rparr>) = (c, sh)"
    and items: "items = own evs"
    using assms(1) by (rule servesE)
  have "fold (conn_step cx) (evs @ events)
      (conn_new (cx_registry cx) w, sh0\<lparr>sh_limiter := rl\<rparr>) = (c', sh')"
    by (simp add: run assms(2))
  from servesI [OF start this] show ?thesis
    by (simp add: items)
qed

lemma serves_others:
  assumes "serves cx faults now items c sh" "by_ops cx sh sh'"
  shows "serves cx faults now items c sh'"
proof -
  from assms(2) obtain ops where "sh' = fold (apply_shared cx) ops sh"
    by (auto simp: by_ops_def)
  then show ?thesis
    using serves_more [OF assms(1) fold_elsewhere [of cx ops c sh]] by simp
qed

lemma serves_step:
  assumes "serves cx faults now items c sh" "conn_step cx (Incoming am inc) (c, sh) = (c', sh')"
  shows "serves cx faults now (items @ [(am, inc)]) c' sh'"
  using serves_more [OF assms(1), of "[Incoming am inc]"] assms(2) by (simp del: conn_step.simps)

lemma serves_start:
  assumes "is_throttled (cx_imin cx) now1 now2 (cx_ip cx) (sh_limiter sh) = (False, rl)"
    and "write_raw (encode (BANNER @ initial_prompt)) (writer_new faults) = (Inr u, w)"
  shows "serves cx faults (now1, now2) [] (conn_new (cx_registry cx) w) (sh\<lparr>sh_limiter := rl\<rparr>)"
  using servesI [OF assms, of "[]"] by simp

lemma served_closed:
  assumes "serves cx faults now items c sh" "cn_closing c"
  shows "served cx faults now items (writer_shutdown (cn_writer c))"
proof -
  obtain sh0 rl u w events where run:
    "is_throttled (cx_imin cx) (fst now) (snd now) (cx_ip cx) (sh_limiter sh0) = (False, rl)"
    "write_raw (encode (BANNER @ initial_prompt)) (writer_new faults) = (Inr u, w)"
    "fold (conn_step cx) events (conn_new (cx_registry cx) w, sh0\<lparr>sh_limiter := rl\<rparr>) = (c, sh)"
    "items = own events"
    using assms(1) by (rule servesE)
  then have "handle_connection cx (fst now) (snd now) events (writer_new faults) sh0 =
      (Some (Inr ()), writer_shutdown (cn_writer c), sh)"
    using assms(2) by (simp add: handle_connection_def Let_def)
  from servedI [OF this] show ?thesis
    by (simp add: run(4))
qed

lemma served_throttled:
  fixes sh :: shared
  assumes "fst (is_throttled (cx_imin cx) now1 now2 (cx_ip cx) (sh_limiter sh))"
  shows "served cx faults (now1, now2) []
    (writer_shutdown (snd (write_raw (encode AUTH_RATE_LIMITED_MSG) (writer_new faults))))"
  using assms servedI [of cx now1 now2 "[]" faults sh "Inr ()"]
  by (simp add: handle_connection_def prod.case_eq_if Let_def)

lemma served_no_banner:
  fixes sh :: shared
  assumes "\<not> fst (is_throttled (cx_imin cx) now1 now2 (cx_ip cx) (sh_limiter sh))"
    and "write_raw (encode (BANNER @ initial_prompt)) (writer_new faults) = (Inl e, w)"
  shows "served cx faults (now1, now2) [] w"
proof -
  obtain res sh' where "handle_connection cx now1 now2 [] (writer_new faults) sh = (Some res, w, sh')"
    using assms by (simp add: handle_connection_def prod.case_eq_if Let_def)
  from servedI [OF this] show ?thesis by simp
qed

section \<open>Every task of the server\<close>

definition task_served :: "('p, 'h) trace \<Rightarrow> ('p, 'h) session_context \<Rightarrow> shared \<Rightarrow> nat \<Rightarrow> task \<Rightarrow> bool" where
  "task_served tr cx sh i t =
    (case t of
       Starting ip w \<Rightarrow>
         \<exists>faults. admitted tr ! i = (ip, faults) \<and> begun i tr = [] \<and> deliveries i tr = [] \<and>
           w = writer_new faults
     | Serving ip c \<Rightarrow>
         \<exists>faults now. admitted tr ! i = (ip, faults) \<and> begun i tr = [now] \<and>
           serves (at_ip cx ip) faults now (deliveries i tr) c sh)"

definition task_ended :: "('p, 'h) trace \<Rightarrow> ('p, 'h) session_context \<Rightarrow> nat \<Rightarrow> writer \<Rightarrow> bool" where
  "task_ended tr cx i w =
    (\<exists>ip faults now. admitted tr ! i = (ip, faults) \<and> begun i tr = [now] \<and>
      served (at_ip cx ip) faults now (deliveries i tr) w)"

definition numbers_ok :: "('p, 'h) server \<Rightarrow> bool" where
  "numbers_ok s =
    (distinct (map fst (sv_tasks s)) \<and> fst ` set (sv_tasks s) \<inter> fst ` set (sv_ended s) = {} \<and>
     (\<forall>i \<in> fst ` set (sv_tasks s) \<union> fst ` set (sv_ended s). i < sv_next s))"

text \<open>A number that was not given out yet occurs in no step.\<close>

definition fresh_numbers :: "('p, 'h) trace \<Rightarrow> ('p, 'h) server \<Rightarrow> bool" where
  "fresh_numbers tr s =
    (length (admitted tr) = sv_next s \<and> (\<forall>i \<ge> sv_next s. begun i tr = [] \<and> deliveries i tr = []))"

definition all_served :: "('p, 'h) trace \<Rightarrow> ('p, 'h) server \<Rightarrow> bool" where
  "all_served tr s =
    ((\<forall>(i, t) \<in> set (sv_tasks s). task_served tr (sv_cx s) (sv_shared s) i t) \<and>
     (\<forall>(i, w) \<in> set (sv_ended s). task_ended tr (sv_cx s) i w))"

lemma set_task_cases: "(j, u) \<in> set (set_task i t ts) \<Longrightarrow> (j = i \<and> u = t) \<or> (j \<noteq> i \<and> (j, u) \<in> set ts)"
  by (auto simp: set_task_def split: if_splits)

lemma at_ip_sel [simp]:
  "cx_ip (at_ip cx ip) = ip" "cx_imin (at_ip cx ip) = cx_imin cx"
  "cx_registry (at_ip cx ip) = cx_registry cx"
  by (simp_all add: at_ip_def)

lemma set_task_numbers [simp]: "fst ` set (set_task i t ts) = fst ` set ts"
  by (metis set_map set_task_keys)

lemma sv_step_numbers:
  assumes "sv_step l s s'" "numbers_ok s"
  shows "numbers_ok s'"
  using assms
proof (induction rule: sv_step.induct)
  case (accept s ip faults)
  have "\<forall>j \<in> fst ` set (sv_tasks s) \<union> fst ` set (sv_ended s). j < Suc (sv_next s) \<and> j \<noteq> sv_next s"
    using accept.prems by (metis less_Suc_eq less_irrefl numbers_ok_def)
  then show ?case
    using accept.prems by (auto simp: numbers_ok_def)
next
  case (begin_conn i ip w s now1 now2)
  have "i \<in> fst ` set (sv_tasks s)"
    using begin_conn.hyps by force
  then show ?case
    using begin_conn.prems
    by (auto simp: numbers_ok_def begin_task_def prod.case_eq_if Let_def without_def end_task_def distinct_map_filter
        split: sum.split)
next
  case (serve i ip c s inc am)
  then show ?case by (simp add: numbers_ok_def serve_task_def prod.case_eq_if)
next
  case (finish i ip c s)
  have "i \<in> fst ` set (sv_tasks s)"
    using finish.hyps by force
  then show ?case
    using finish.prems by (auto simp: numbers_ok_def end_task_def distinct_map_filter)
qed (simp_all add: numbers_ok_def)

lemma sv_step_fresh:
  assumes "sv_step l s s'" "numbers_ok s" "fresh_numbers tr s"
  shows "fresh_numbers (tr @ [(l, s)]) s'"
  using assms
proof (induction rule: sv_step.induct)
  case (begin_conn i ip w s now1 now2)
  then have "i < sv_next s"
    by (force simp: numbers_ok_def)
  moreover have "sv_next (begin_task i now1 now2 ip w s) = sv_next s"
    by (simp add: begin_task_def end_task_def prod.case_eq_if Let_def split: sum.split)
  ultimately show ?case
    using begin_conn.prems by (simp add: fresh_numbers_def)
next
  case (serve i ip c s inc am)
  then have "i < sv_next s"
    by (force simp: numbers_ok_def)
  then show ?case
    using serve.prems by (simp add: fresh_numbers_def serve_task_def prod.case_eq_if)
qed (simp_all add: fresh_numbers_def end_task_def)

text \<open>A step that is not about a task leaves it served, and one that has ended as it ended.\<close>

lemma task_served_later:
  assumes "task_served tr cx sh j t" "by_ops cx sh sh'" "j < length (admitted tr)"
    and "beginning j l = []" "delivery j l = []"
  shows "task_served (tr @ [(l, s)]) cx sh' j t"
proof (cases t)
  case (Serving ip c)
  have "by_ops (at_ip cx ip) sh sh'"
    using assms(2) by simp
  then show ?thesis
    using assms Serving serves_others by (fastforce simp: task_served_def nth_append)
qed (use assms in \<open>simp add: task_served_def nth_append\<close>)

lemma all_served_later:
  assumes "all_served tr s" "numbers_ok s" "fresh_numbers tr s"
    and "sv_cx s' = sv_cx s" "by_ops (sv_cx s) (sv_shared s) (sv_shared s')"
    and "\<And>j t. (j, t) \<in> set (sv_tasks s') \<Longrightarrow>
      ((j, t) \<in> set (sv_tasks s) \<and> beginning j l = [] \<and> delivery j l = []) \<or>
      task_served (tr @ [(l, s)]) (sv_cx s) (sv_shared s') j t"
    and "\<And>j w. (j, w) \<in> set (sv_ended s') \<Longrightarrow>
      ((j, w) \<in> set (sv_ended s) \<and> beginning j l = [] \<and> delivery j l = []) \<or>
      task_ended (tr @ [(l, s)]) (sv_cx s) j w"
  shows "all_served (tr @ [(l, s)]) s'"
proof -
  have given: "j < length (admitted tr)" if "(j, x) \<in> set (sv_tasks s)" for j x
    using that assms(2,3) by (force simp: numbers_ok_def fresh_numbers_def)
  have given': "j < length (admitted tr)" if "(j, x) \<in> set (sv_ended s)" for j x
    using that assms(2,3) by (force simp: numbers_ok_def fresh_numbers_def)
  have "task_served (tr @ [(l, s)]) (sv_cx s) (sv_shared s') j t" if "(j, t) \<in> set (sv_tasks s')" for j t
    using assms(6) [OF that]
  proof (elim disjE conjE)
    assume "(j, t) \<in> set (sv_tasks s)" "beginning j l = []" "delivery j l = []"
    then show ?thesis
      using assms(1,5) given [of j t]
      by (intro task_served_later [of tr "sv_cx s" "sv_shared s"]) (auto simp: all_served_def)
  qed
  moreover have "task_ended (tr @ [(l, s)]) (sv_cx s) j w" if "(j, w) \<in> set (sv_ended s')" for j w
    using assms(7) [OF that] assms(1) given' [of j w]
    by (auto simp: all_served_def task_ended_def nth_append)
  ultimately show ?thesis
    by (auto simp: all_served_def assms(4))
qed

lemma not_ended:
  assumes "numbers_ok s" "(i, t) \<in> set (sv_tasks s)" "(j, w) \<in> set (sv_ended s)"
  shows "j \<noteq> i"
  using assms by (force simp: numbers_ok_def)

lemma all_served_begin:
  assumes "all_served tr s" "numbers_ok s" "fresh_numbers tr s" "(i, Starting ip w) \<in> set (sv_tasks s)"
  shows "all_served (tr @ [(Begin i now1 now2, s)]) (begin_task i now1 now2 ip w s)"
proof -
  let ?cx = "at_ip (sv_cx s) ip"
  let ?l = "Begin i now1 now2"
  let ?tr = "tr @ [(?l, s)]"
  let ?check = "is_throttled (cx_imin (sv_cx s)) now1 now2 ip (sh_limiter (sv_shared s))"
  let ?sh = "(sv_shared s)\<lparr>sh_limiter := snd ?check\<rparr>"
  have ops: "by_ops (sv_cx s) (sv_shared s) ?sh"
    by (rule check_by_ops)
  note later = all_served_later [OF assms(1-3), where l = ?l]
  have "i < length (admitted tr)"
    using assms(2-4) by (force simp: numbers_ok_def fresh_numbers_def)
  moreover have "task_served tr (sv_cx s) (sv_shared s) i (Starting ip w)"
    using assms(1,4) by (auto simp: all_served_def)
  ultimately obtain faults where w: "w = writer_new faults" "admitted ?tr ! i = (ip, faults)"
    "begun i ?tr = [(now1, now2)]" "deliveries i ?tr = []"
    by (auto simp: task_served_def nth_append)
  have ended: "all_served ?tr (end_task i w' (s\<lparr>sv_shared := ?sh\<rparr>))"
    if "served ?cx faults (now1, now2) [] w'" for w'
    using that w ops not_ended [OF assms(2,4)]
    by (intro later) (auto simp: end_task_def task_ended_def)
  show ?thesis
  proof (cases "fst ?check")
    case True
    then show ?thesis
      using ended [OF served_throttled [of ?cx now1 now2 "sv_shared s"]] w(1)
      by (simp add: begin_task_def prod.case_eq_if Let_def)
  next
    case False
    show ?thesis
    proof (cases "write_raw (encode (BANNER @ initial_prompt)) w")
      case wr: (Pair r w1)
      show ?thesis
      proof (cases r)
        case (Inl e)
        then show ?thesis
          using ended [OF served_no_banner [of ?cx now1 now2 "sv_shared s" faults e w1]] False wr w(1)
          by (simp add: begin_task_def prod.case_eq_if Let_def)
      next
        case (Inr u)
        have "serves ?cx faults (now1, now2) [] (conn_new (cx_registry ?cx) w1) ?sh"
          by (rule serves_start [of ?cx now1 now2 "sv_shared s" _ faults u])
             (use False wr Inr w(1) in \<open>auto simp: prod_eq_iff\<close>)
        then have "task_served ?tr (sv_cx s) ?sh i (Serving ip (conn_new (cx_registry (sv_cx s)) w1))"
          using w(2-4) by (auto simp: task_served_def)
        then have "all_served ?tr (s\<lparr>sv_shared := ?sh,
            sv_tasks := set_task i (Serving ip (conn_new (cx_registry (sv_cx s)) w1)) (sv_tasks s)\<rparr>)"
          using ops not_ended [OF assms(2,4)] by (intro later) (auto dest!: set_task_cases)
        then show ?thesis
          using False wr Inr by (simp add: begin_task_def prod.case_eq_if Let_def)
      qed
    qed
  qed
qed

lemma all_served_serve:
  assumes "all_served tr s" "numbers_ok s" "fresh_numbers tr s" "(i, Serving ip c) \<in> set (sv_tasks s)"
  shows "all_served (tr @ [(Serve i am inc, s)]) (serve_task i am inc ip c s)"
proof (cases "conn_step (at_ip (sv_cx s) ip) (Incoming am inc) (c, sv_shared s)")
  case (Pair c' sh')
  have "i < length (admitted tr)"
    using assms(2-4) by (force simp: numbers_ok_def fresh_numbers_def)
  moreover have "task_served tr (sv_cx s) (sv_shared s) i (Serving ip c)"
    using assms(1,4) by (auto simp: all_served_def)
  ultimately have "task_served (tr @ [(Serve i am inc, s)]) (sv_cx s) sh' i (Serving ip c')"
    using serves_step [OF _ Pair] by (auto simp: task_served_def nth_append)
  moreover have "by_ops (sv_cx s) (sv_shared s) sh'"
    using conn_step_by_ops [of "at_ip (sv_cx s) ip" "sv_shared s" am inc c] by (simp add: Pair del: conn_step.simps)
  ultimately have "all_served (tr @ [(Serve i am inc, s)])
      (s\<lparr>sv_tasks := set_task i (Serving ip c') (sv_tasks s), sv_shared := sh'\<rparr>)"
    using not_ended [OF assms(2,4)]
    by (intro all_served_later [OF assms(1-3)]) (auto dest!: set_task_cases)
  then show ?thesis
    by (simp add: serve_task_def Pair del: conn_step.simps)
qed

lemma sv_step_all_served:
  assumes "sv_step l s s'" "all_served tr s" "numbers_ok s" "fresh_numbers tr s"
  shows "all_served (tr @ [(l, s)]) s'"
  using assms
proof (induction rule: sv_step.induct)
  case (accept s ip faults)
  then have "task_served (tr @ [(Accept ip faults, s)]) (sv_cx s) (sv_shared s) (sv_next s)
      (Starting ip (writer_new faults))"
    by (simp add: task_served_def fresh_numbers_def nth_append)
  then show ?case
    using accept.prems by (intro all_served_later [of tr s]) auto
next
  case (finish i ip c s)
  then have "task_served tr (sv_cx s) (sv_shared s) i (Serving ip c)"
    by (auto simp: all_served_def)
  moreover have "i < length (admitted tr)"
    using finish by (force simp: numbers_ok_def fresh_numbers_def)
  ultimately have "task_ended (tr @ [(Finish i, s)]) (sv_cx s) i (writer_shutdown (cn_writer c))"
    using served_closed [OF _ finish.hyps(2)] by (auto simp: task_served_def task_ended_def nth_append)
  then show ?case
    using finish.prems by (intro all_served_later [of tr s]) (auto simp: end_task_def)
next
  case (begin_conn i ip w s now1 now2)
  then show ?case by (intro all_served_begin)
next
  case (serve i ip c s inc am)
  then show ?case by (intro all_served_serve)
qed (auto intro!: all_served_later)

lemma happened_served:
  assumes "happened s0 tr s" "sv_tasks s0 = []" "sv_ended s0 = []" "sv_next s0 = 0"
  shows "all_served tr s \<and> numbers_ok s \<and> fresh_numbers tr s"
  using assms
proof (induction rule: happened.induct)
  case nothing
  then show ?case
    by (simp add: all_served_def numbers_ok_def fresh_numbers_def)
next
  case (then_step tr s l s')
  then show ?case
    using sv_step_all_served sv_step_numbers sv_step_fresh by blast
qed

lemma server_start_empty:
  "server_start wo cfg = Inr s0 \<Longrightarrow> sv_tasks s0 = [] \<and> sv_ended s0 = [] \<and> sv_next s0 = 0"
  by (auto simp: server_start_def Let_def and_then_Inr_iff split: option.splits)

end
