(* ===== verification/ServerProps.thy ===== *)
theory ServerProps
  imports ServerTasks ConnectionProps
begin

text \<open>
  What the configuration and the server guarantee: the precedence of the command line over
  the file over the defaults, the order of the checks at startup, the limit on connections
  with everything the parts guarantee, in every reachable state and for every interleaving, a
  full server's answer, and that a shutdown lets every connection end by itself.
\<close>

section \<open>Configuration\<close>


definition no_keys :: file_keys where
  "no_keys = \<lparr>fk_server = None, fk_auth = None, fk_registry_path = None, fk_default_filter = None\<rparr>"


section \<open>The server\<close>

text \<open>What is asked of the surroundings for the server's invariant to hold at the start.\<close>

definition rows_ok :: "('p, 'h) services \<Rightarrow> row list \<Rightarrow> bool" where
  "rows_ok svc rows =
    (distinct (map row_id rows) \<and> distinct (map (\<lambda>r. nocase_key svc (row_username r)) rows) \<and>
     (\<forall>r \<in> set rows. row_ok svc r))"

lemma store_open_ok:
  assumes "services_ok svc" "rows_ok svc rows"
    and "store_open svc parent mkdir_fault open_fault schema_fault rows salt ps = Inr st"
  shows "store_ok svc st"
proof -
  obtain h where h: "generate_hash svc salt (lit ''dummy_password_for_timing'') ps = Inr h"
    and st: "st = \<lparr>st_rows = rows, st_params = ps, st_dummy_hash = h, st_poisoned = False\<rparr>"
    using assms(3) by (auto simp: store_open_def and_then_Inr_iff simp del: lit_simps split: if_splits option.splits)
  show ?thesis
    using generate_hash_Inr [OF assms(1) h] assms(1,2) by (auto simp: store_ok_def rows_ok_def st)
qed

lemma server_start_ok:
  assumes "services_ok (wo_services wo)" "rows_ok (wo_services wo) (wo_rows wo)"
    and "server_start wo cfg = Inr s"
  shows "server_ok (sc_max_connections (cfg_server cfg)) s"
proof -
  obtain st where st: "open_store wo (cfg_auth cfg) = Inr st"
    using assms(3) by (cases "open_store wo (cfg_auth cfg)") (simp_all add: server_start_def Let_def)
  then have "store_ok (wo_services wo) st"
    using store_open_ok [OF assms(1,2)] by (simp add: open_store_def)
  moreover have "sh_store (sv_shared s) = st" "cx_services (sv_cx s) = wo_services wo"
    "sv_permits s = sc_max_connections (cfg_server cfg)" "sv_tasks s = []"
    "rl_failures (sh_limiter (sv_shared s)) = []"
    using assms(3) st by (auto simp: server_start_def Let_def and_then_Inr_iff split: option.splits)
  ultimately show ?thesis
    by (simp add: server_ok_def keys_distinct_def)
qed

text \<open>
  C4: in every state the server can reach from its start, however its connections, the
  shutdown and the failures interleave, there are never more than the configured number of
  connections and the free permits account for the rest; the store keeps unique ids and
  usernames; and every connection still in its loop has its client's echo off exactly when a
  password is awaited and a failed attempt left.
\<close>

theorem reachable_server_invariant:
  assumes "services_ok (wo_services wo)" and "rows_ok (wo_services wo) (wo_rows wo)"
    and "server_start wo cfg = Inr s0" and "reachable s0 s"
  shows "length (sv_tasks s) + sv_permits s = sc_max_connections (cfg_server cfg) \<and>
    distinct (map row_id (st_rows (sh_store (sv_shared s)))) \<and>
    distinct (map (\<lambda>r. nocase_key (cx_services (sv_cx s)) (row_username r)) (st_rows (sh_store (sv_shared s)))) \<and>
    (\<forall>i ip c. (i, Serving ip c) \<in> set (sv_tasks s) \<and> \<not> cn_closing c \<longrightarrow>
      client_echo c = (\<not> is_password_input (cn_session c)) \<and>
      unat (cn_auth_failures c) < max 1 (unat (cx_max_login_attempts (sv_cx s))))"
  using reachable_ok [OF assms(4) server_start_ok [OF assms(1-3)]]
  by (auto simp: server_ok_def store_ok_def task_ok_def conn_ok_def open_ok_def client_echo_def attempts_def)

definition example_wo :: "(unit, ustr) world_outside" where
  "example_wo =
    \<lparr>wo_services = plain_services, wo_path_parent = (\<lambda>_. Some (lit ''data'')), wo_mkdir_fault = None,
     wo_open_fault = None, wo_schema_fault = None, wo_rows = [alice_row], wo_salt = [],
     wo_read_to_string = (\<lambda>_. Inr []),
     wo_toml_worlds = (\<lambda>_. Inr [\<lparr>dto_slug = lit ''dusk'', dto_name = lit ''Dusk'', dto_short = lit ''D''\<rparr>]),
     wo_fresh = of_nat, wo_bind = (\<lambda>_. None), wo_order = id, wo_imin = 0\<rparr>"

lemma example_wo_ok: "services_ok (wo_services example_wo)" "rows_ok (wo_services example_wo) (wo_rows example_wo)"
  using alice_store_ready
  by (simp_all add: example_wo_def rows_ok_def ready_def store_ok_def alice_store_def)

lemma example_start: "\<exists>s0. server_start example_wo app_config_default = Inr s0 \<and> sv_accepting s0 \<and>
    \<not> sv_cancelled s0 \<and> 0 < sv_permits s0"
proof -
  have "is_ok (server_start example_wo app_config_default)"
    by code_simp
  then obtain s0 where s0: "server_start example_wo app_config_default = Inr s0"
    by (cases "server_start example_wo app_config_default") simp_all
  then have "sv_accepting s0 \<and> \<not> sv_cancelled s0 \<and> sv_permits s0 = sc_max_connections server_config_default"
    by (auto simp: server_start_def Let_def and_then_Inr_iff app_config_default_def split: option.splits)
  then show ?thesis
    using s0 by (simp add: server_config_default_def DEFAULT_MAX_CONNECTIONS_def)
qed

theorem reachable_server_invariant_witness:
  "\<exists>s0 s. server_start example_wo app_config_default = Inr s0 \<and> reachable s0 s \<and> sv_tasks s \<noteq> [] \<and>
    length (sv_tasks s) + sv_permits s = sc_max_connections (cfg_server app_config_default)"
proof -
  obtain s0 where s0: "server_start example_wo app_config_default = Inr s0" "sv_accepting s0"
    "\<not> sv_cancelled s0" "0 < sv_permits s0"
    using example_start by blast
  let ?s = "s0\<lparr>sv_permits := sv_permits s0 - 1,
    sv_tasks := sv_tasks s0 @ [(sv_next s0, Starting (V4 7) (writer_new []))], sv_next := sv_next s0 + 1\<rparr>"
  have "reachable s0 ?s"
    by (rule reachable.step [OF reachable.start sv_step.accept]) (use s0 in simp_all)
  then have "length (sv_tasks ?s) + sv_permits ?s = sc_max_connections (cfg_server app_config_default)"
    using reachable_server_invariant [OF example_wo_ok s0(1)] by blast
  with s0(1) \<open>reachable s0 ?s\<close> show ?thesis
    by (intro exI [of _ s0] exI [of _ ?s]) simp
qed

lemma happened_task:
  assumes "server_start wo cfg = Inr s0" and "happened s0 tr s" and "(i, w) \<in> set (sv_ended s)"
  shows "i < length (admitted tr)" and "task_ended tr (sv_cx s) i w"
proof -
  have served: "all_served tr s" "numbers_ok s" "fresh_numbers tr s"
    using happened_served [OF assms(2)] server_start_empty [OF assms(1)] by simp_all
  then show "i < length (admitted tr)"
    using assms(3) by (force simp: numbers_ok_def fresh_numbers_def)
  show "task_ended tr (sv_cx s) i w"
    using served(1) assms(3) by (auto simp: all_served_def)
qed

theorem tasks_run_the_handler:
  assumes "server_start wo cfg = Inr s0" and "reachable s0 s" and "(i, w) \<in> set (sv_ended s)"
  shows "\<exists>ip now1 now2 events faults sh res sh'.
    handle_connection (at_ip (sv_cx s) ip) now1 now2 events (writer_new faults) sh = (Some res, w, sh')"
  using happened_task [OF assms(1) _ assms(3)] assms(2)
  unfolding reachable_happened task_ended_def served_def by blast

text \<open>
  C5: whatever the order in which the server's tasks take their steps, each client is served as
  if \<open>handle_connection\<close> ran for it alone. What was sent to the client of an ended task is what
  that function sends from the address and the socket the task was let in with, at the instants
  its address check read, for events of which the client's own are exactly those its reader
  delivered, in that order; the steps of all other tasks are only operations on the shared
  store and limiter between them.
\<close>

theorem tasks_serve_their_clients:
  assumes "server_start wo cfg = Inr s0" and "happened s0 tr s" and "(i, w) \<in> set (sv_ended s)"
  shows "\<exists>ip faults now1 now2 events sh res sh'.
    i < length (admitted tr) \<and> admitted tr ! i = (ip, faults) \<and> begun i tr = [(now1, now2)] \<and>
    own events = deliveries i tr \<and>
    handle_connection (at_ip (sv_cx s) ip) now1 now2 events (writer_new faults) sh = (Some res, w, sh')"
  using happened_task [OF assms] unfolding task_ended_def served_def by force

lemma example_served:
  "\<exists>s0 tr s w. server_start example_wo app_config_default = Inr s0 \<and> happened s0 tr s \<and> (0, w) \<in> set (sv_ended s)"
proof -
  obtain s0 where s0: "server_start example_wo app_config_default = Inr s0" "sv_accepting s0"
    "\<not> sv_cancelled s0" "0 < sv_permits s0"
    using example_start by blast
  then have z: "sv_tasks s0 = []" "sv_next s0 = 0" "rl_failures (sh_limiter (sv_shared s0)) = []"
    by (auto simp: server_start_def Let_def and_then_Inr_iff rate_limiter_new_def split: option.splits)
  let ?w = "writer_new []"
  let ?s1 = "s0\<lparr>sv_permits := sv_permits s0 - 1, sv_tasks := sv_tasks s0 @ [(sv_next s0, Starting (V4 7) ?w)],
    sv_next := sv_next s0 + 1\<rparr>"
  let ?s2 = "begin_task 0 0 0 (V4 7) ?w ?s1"
  obtain tr1 where r1: "happened s0 tr1 ?s1"
    by (rule that, rule happened.then_step [OF happened.nothing sv_step.accept]) (use s0 in simp_all)
  obtain tr2 where r2: "happened s0 tr2 ?s2"
    by (rule that, rule happened.then_step [OF r1 sv_step.begin_conn]) (simp add: z)
  obtain c where c: "(0, Serving (V4 7) c) \<in> set (sv_tasks ?s2)" "\<not> cn_closing c"
    by (auto simp: begin_task_def is_throttled_def z write_raw_def writer_new_def set_task_def conn_new_def)
  have live: "\<not> sv_cancelled ?s2"
    using s0(3) by (simp add: begin_task_def is_throttled_def z write_raw_def writer_new_def)
  fix am
  let ?s3 = "serve_task 0 am End_of_stream (V4 7) c ?s2"
  obtain tr3 where r3: "happened s0 tr3 ?s3"
    by (rule that, rule happened.then_step [OF r2 sv_step.serve]) (use c live in simp_all)
  have "(0, Serving (V4 7) (close c)) \<in> set (sv_tasks ?s3)"
    using set_task_in [OF c(1)] c(2) by (simp add: serve_task_def)
  then obtain tr where "happened s0 tr (end_task 0 (writer_shutdown (cn_writer (close c))) ?s3)"
    using happened.then_step [OF r3 sv_step.finish] by (force simp: close_def)
  with s0(1) show ?thesis
    by (intro exI [of _ s0] exI [of _ tr] exI [of _ "end_task 0 (writer_shutdown (cn_writer (close c))) ?s3"]
        exI [of _ "writer_shutdown (cn_writer (close c))"]) (simp add: end_task_def)
qed

theorem tasks_serve_their_clients_witness:
  "\<exists>s0 tr s w ip faults now1 now2 events sh res sh'.
    server_start example_wo app_config_default = Inr s0 \<and> happened s0 tr s \<and> (0, w) \<in> set (sv_ended s) \<and>
    admitted tr ! 0 = (ip, faults) \<and> own events = deliveries 0 tr \<and>
    handle_connection (at_ip (sv_cx s) ip) now1 now2 events (writer_new faults) sh = (Some res, w, sh')"
proof -
  obtain s0 tr s w where s: "server_start example_wo app_config_default = Inr s0" "happened s0 tr s"
    "(0, w) \<in> set (sv_ended s)"
    using example_served by blast
  then show ?thesis
    using tasks_serve_their_clients [OF s] by metis
qed

text \<open>
  The checks at startup are made in the order store, world registry, address, and the
  first that fails decides the error: its context, then its cause.
\<close>

theorem startup_error_order:
  "server_start wo cfg =
    (case open_store wo (cfg_auth cfg) of
       Inl e \<Rightarrow> Inl [lit ''opening account store'', error_display e]
     | Inr st \<Rightarrow>
         (case load_from_toml (wo_read_to_string wo) (wo_toml_worlds wo) (wo_fresh wo) (cfg_registry_path cfg) of
            Inl e \<Rightarrow> Inl [lit ''loading world registry'', error_display e]
          | Inr reg \<Rightarrow>
              (case wo_bind wo (sc_bind_address (cfg_server cfg) @ lit '':'' @
                  usize_to_string (unat (sc_port (cfg_server cfg)))) of
                 Some e \<Rightarrow> Inl [lit ''binding TCP listener to '' @ sc_bind_address (cfg_server cfg) @ lit '':'' @
                   usize_to_string (unat (sc_port (cfg_server cfg))), e]
               | None \<Rightarrow> server_start wo cfg))) \<and>
   (is_ok (server_start wo cfg) \<longrightarrow>
     is_ok (load_from_toml (wo_read_to_string wo) (wo_toml_worlds wo) (wo_fresh wo) (cfg_registry_path cfg)))"
  by (cases "open_store wo (cfg_auth cfg)";
      cases "load_from_toml (wo_read_to_string wo) (wo_toml_worlds wo) (wo_fresh wo) (cfg_registry_path cfg)")
     (auto simp: server_start_def Let_def split: option.split)

theorem startup_error_order_witness:
  "is_ok (load_from_toml (wo_read_to_string example_wo) (wo_toml_worlds example_wo) (wo_fresh example_wo)
    (cfg_registry_path app_config_default))"
proof -
  have "is_ok (server_start example_wo app_config_default)"
    by code_simp
  with startup_error_order [of example_wo app_config_default] show ?thesis by blast
qed

text \<open>
  C21: a connection attempt at a server that still accepts adds a task and takes a permit when
  one is free; when none is, it changes no task and no permit, and the client is sent the
  notice and nothing else and its writer is shut down.
\<close>

theorem accept_needs_permit:
  assumes "sv_step (Accept ip []) s s'"
  shows "(0 < sv_permits s \<longrightarrow> length (sv_tasks s') = Suc (length (sv_tasks s)) \<and>
      Suc (sv_permits s') = sv_permits s \<and> sv_refused s' = sv_refused s) \<and>
    (sv_permits s = 0 \<longrightarrow> sv_tasks s' = sv_tasks s \<and> sv_permits s' = 0 \<and>
      sv_refused s' = sv_refused s @ [\<lparr>w_sent = encode SERVER_FULL_MSG, w_faults = [], w_shut = True\<rparr>])"
  using assms
  by (rule sv_step_acceptE) (simp_all add: reject_def write_raw_def writer_new_def writer_shutdown_def)

theorem accept_needs_permit_witness:
  "\<exists>s0 s. server_start example_wo app_config_default = Inr s0 \<and> sv_step (Accept (V4 7) []) s0 s \<and>
    length (sv_tasks s) = Suc (length (sv_tasks s0))"
proof -
  obtain s0 where s0: "server_start example_wo app_config_default = Inr s0" "sv_accepting s0"
    "\<not> sv_cancelled s0" "0 < sv_permits s0"
    using example_start by blast
  from sv_step.accept [OF s0(2-4), of "V4 7" "[]"] obtain s where s: "sv_step (Accept (V4 7) []) s0 s"
    by blast
  from accept_needs_permit [OF s] s s0(1,4) show ?thesis by blast
qed

text \<open>
  C22: a shutdown can complete without abandoning anyone. From every reachable state in which
  the token is cancelled and the loop has been left there is a run, made only of steps of
  the connections themselves and the end of the drain, to a stopped server with no task left
  and every permit returned; in particular the timeout is not needed for progress.
\<close>

theorem shutdown_can_drain:
  assumes "services_ok (wo_services wo)" and "rows_ok (wo_services wo) (wo_rows wo)"
    and "server_start wo cfg = Inr s0" and "reachable s0 s" and "sv_cancelled s" and "\<not> sv_accepting s"
  shows "\<exists>s'. sv_run by_itself s s' \<and> sv_stopped s' \<and> sv_tasks s' = [] \<and>
    sv_permits s' = sc_max_connections (cfg_server cfg)"
proof -
  obtain s1 where s1: "sv_run by_itself s s1" "shutting_down s1" "sv_tasks s1 = []"
    using all_tasks_end [of s] assms(5,6) by (auto simp: shutting_down_def)
  let ?s = "s1\<lparr>sv_stopped := True\<rparr>"
  have "sv_run by_itself s1 ?s"
    using s1(2,3) by (intro sv_run_one [OF sv_step.drained]) (simp_all add: shutting_down_def)
  then have "sv_run by_itself s ?s"
    using s1(1) by (rule sv_run_trans [rotated])
  moreover have "reachable s0 s1"
    using s1(1) assms(4) by (rule run_reachable)
  then have "sv_permits s1 = sc_max_connections (cfg_server cfg)"
    using reachable_ok [OF _ server_start_ok [OF assms(1-3)], of s1] s1(3) by (simp add: server_ok_def)
  ultimately show ?thesis
    using s1(3) by (intro exI [of _ ?s]) simp
qed

theorem shutdown_can_drain_witness:
  "\<exists>s0 s s'. server_start example_wo app_config_default = Inr s0 \<and> reachable s0 s \<and> length (sv_tasks s) = 1 \<and>
    sv_run by_itself s s' \<and> sv_stopped s' \<and> sv_tasks s' = []"
proof -
  obtain s0 where s0: "server_start example_wo app_config_default = Inr s0" "sv_accepting s0"
    "\<not> sv_cancelled s0" "0 < sv_permits s0"
    using example_start by blast
  have t0: "sv_tasks s0 = []"
    using s0(1) by (auto simp: server_start_def Let_def and_then_Inr_iff split: option.splits)
  let ?s1 = "s0\<lparr>sv_permits := sv_permits s0 - 1,
    sv_tasks := sv_tasks s0 @ [(sv_next s0, Starting (V4 7) (writer_new []))], sv_next := sv_next s0 + 1\<rparr>"
  let ?s2 = "?s1\<lparr>sv_cancelled := True\<rparr>"
  let ?s3 = "?s2\<lparr>sv_accepting := False\<rparr>"
  have r1: "reachable s0 ?s1"
    by (rule reachable.step [OF reachable.start sv_step.accept]) (use s0 in simp_all)
  have r2: "reachable s0 ?s2"
    by (rule reachable.step [OF r1 sv_step.cancel])
  have r3: "reachable s0 ?s3"
    by (rule reachable.step [OF r2 sv_step.leave]) (use s0(2) in simp_all)
  have "\<exists>s'. sv_run by_itself ?s3 s' \<and> sv_stopped s' \<and> sv_tasks s' = [] \<and>
      sv_permits s' = sc_max_connections (cfg_server app_config_default)"
    by (rule shutdown_can_drain [OF example_wo_ok s0(1) r3]) simp_all
  moreover have "length (sv_tasks ?s3) = 1"
    using t0 by simp
  ultimately show ?thesis
    using s0(1) r3 by blast
qed

end
