(* ===== verification/Cli.thy ===== *)
theory Cli
  imports Server
begin

text \<open>
  The command line of \<open>crates/liaozhai-server/src/main.rs\<close>: the commands, the two
  ways of reading a password, the creation and the listing of accounts, and \<open>main\<close> down
  to the start of the listener. The console is a state: whether standard input is a terminal,
  what it still holds, and what has been printed. The answers of \<open>rpassword\<close> on a
  terminal and of the \<open>time\<close> crate are parameters; failures of the console to print are
  left out.
\<close>

section \<open>Commands\<close>

datatype account_action =
    Create_account ustr
  | List_accounts

datatype command =
    Run "u16 option" "ustr option"
  | Account_command account_action

record cli =
  cli_config :: "ustr option"
  cli_command :: command

section \<open>The console\<close>

text \<open>
  \<open>con_prompted\<close> is the answer of \<open>rpassword\<close> to the call of that number with that
  prompt, \<open>con_read_fault\<close> the failure of the read of that number, if any.
\<close>

record console =
  con_is_terminal :: bool
  con_prompted :: "nat \<Rightarrow> ustr \<Rightarrow> ustr + ustr"
  con_read_fault :: "nat \<Rightarrow> ustr option"
  con_calls :: nat
  con_stdin :: bytes
  con_out :: ustr
  con_err :: ustr

definition println :: "ustr \<Rightarrow> console \<Rightarrow> console" where
  "println s con = con\<lparr>con_out := con_out con @ s @ [10]\<rparr>"

definition eprint :: "ustr \<Rightarrow> console \<Rightarrow> console" where
  "eprint s con = con\<lparr>con_err := con_err con @ s\<rparr>"

text \<open>\<open>Stdin::read_line\<close>: up to and with the next line feed, or to the end.\<close>

fun take_line :: "bytes \<Rightarrow> bytes \<times> bytes" where
  "take_line [] = ([], [])"
| "take_line (b # bs) = (if b = 10 then ([b], bs) else apfst (Cons b) (take_line bs))"

definition read_line :: "console \<Rightarrow> (ustr + ustr) \<times> console" where
  "read_line con =
    (let con' = con\<lparr>con_calls := con_calls con + 1\<rparr> in
     case con_read_fault con (con_calls con) of
       Some e \<Rightarrow> (Inl e, con')
     | None \<Rightarrow>
         (case take_line (con_stdin con) of
            (line, rest) \<Rightarrow>
              ((case from_utf8 line of
                  None \<Rightarrow> Inl (lit ''stream did not contain valid UTF-8'')
                | Some s \<Rightarrow> Inr s),
               con'\<lparr>con_stdin := rest\<rparr>)))"

definition prompt_password :: "ustr \<Rightarrow> console \<Rightarrow> (ustr + ustr) \<times> console" where
  "prompt_password prompt con =
    (con_prompted con (con_calls con) prompt, con\<lparr>con_calls := con_calls con + 1\<rparr>)"

definition strip_line_end :: "ustr \<Rightarrow> ustr" where
  "strip_line_end line = trim_end_where (\<lambda>c. c = 13) (trim_end_where (\<lambda>c. c = 10) line)"

definition read_password :: "ustr \<Rightarrow> console \<Rightarrow> (anyhow + ustr) \<times> console" where
  "read_password prompt con =
    (if con_is_terminal con then
       apfst (with_context (lit ''reading password'')) (prompt_password prompt con)
     else
       (case read_line (eprint prompt con) of
          (Inl e, con') \<Rightarrow> (Inl [lit ''reading password from stdin'', e], con')
        | (Inr line, con') \<Rightarrow> (Inr (strip_line_end line), con')))"

section \<open>Timestamps\<close>

text \<open>
  The \<open>time\<close> crate: the time of a Unix timestamp, if it is in range, the offset of the
  local zone, if it can be told, and the formatting with the description in the source.
\<close>

record ('dt, 'o) time_crate =
  from_unix_timestamp :: "int \<Rightarrow> 'dt option"
  current_local_offset :: "'o option"
  to_offset :: "'dt \<Rightarrow> 'o \<Rightarrow> 'dt"
  format_date :: "ustr \<Rightarrow> 'dt \<Rightarrow> ustr option"

definition format_timestamp :: "('dt, 'o) time_crate \<Rightarrow> int \<Rightarrow> ustr" where
  "format_timestamp tc epoch_secs =
    (case from_unix_timestamp tc epoch_secs of
       None \<Rightarrow> i64_to_string epoch_secs
     | Some dt \<Rightarrow>
         let local = (case current_local_offset tc of
               Some offset \<Rightarrow> to_offset tc dt offset
             | None \<Rightarrow> dt)
         in or_default
              (format_date tc (lit ''[year]-[month]-[day] [hour]:[minute]:[second]'') local)
              (i64_to_string epoch_secs))"

section \<open>Account commands\<close>

text \<open>
  \<open>account create\<close>: the name is trimmed, the password is asked for twice and taken as
  it is.
\<close>

definition account_create :: "('p, 'h) services \<Rightarrow> int \<Rightarrow> ustr \<Rightarrow> uuid \<Rightarrow> ustr option \<Rightarrow> ustr
    \<Rightarrow> store \<Rightarrow> console \<Rightarrow> (anyhow + unit) \<times> store \<times> console" where
  "account_create svc clock salt fresh fault name st con =
    (let username = trim name in
     if username = [] then (Inl [lit ''Username cannot be empty.''], st, con)
     else
       (case read_password (lit ''Password: '') con of
          (Inl e, con1) \<Rightarrow> (Inl e, st, con1)
        | (Inr password, con1) \<Rightarrow>
            (case read_password (lit ''Confirm:  '') con1 of
               (Inl e, con2) \<Rightarrow> (Inl e, st, con2)
             | (Inr confirm, con2) \<Rightarrow>
                 if password \<noteq> confirm then (Inl [lit ''Passwords do not match.''], st, con2)
                 else if password = [] then (Inl [lit ''Password cannot be empty.''], st, con2)
                 else
                   (case create_account svc clock salt fresh fault username password st of
                      (Inl e, st') \<Rightarrow> (Inl [lit ''creating account'', error_display e], st', con2)
                    | (Inr a, st') \<Rightarrow>
                        (Inr (), st',
                         println (lit ''Account '' @ [39] @ username @ [39] @ lit '' created.'') con2)))))"

text \<open>
  \<open>account list\<close>. The width given for the id has no effect: its \<open>Display\<close> writes
  the text of the \<open>Uuid\<close> with a format of its own.
\<close>

definition list_header :: ustr where
  "list_header =
    pad_right 38 (lit ''ID'') @ [32] @ pad_right 16 (lit ''USERNAME'') @ [32] @
    pad_right 21 (lit ''CREATED'') @ lit '' LAST LOGIN''"

definition list_line :: "('p, 'h) services \<Rightarrow> ('dt, 'o) time_crate \<Rightarrow> account \<Rightarrow> ustr" where
  "list_line svc tc a =
    account_id_display (uuid_text svc) (acc_id a) @ [32] @ pad_right 16 (acc_username a) @ [32] @
    pad_right 21 (format_timestamp tc (acc_created_at a)) @ [32] @
    (case acc_last_login_at a of
       None \<Rightarrow> lit ''(never)''
     | Some t \<Rightarrow> format_timestamp tc t)"

definition account_list :: "('p, 'h) services \<Rightarrow> ('dt, 'o) time_crate \<Rightarrow> (list_stage \<times> ustr) option
    \<Rightarrow> store \<Rightarrow> console \<Rightarrow> (anyhow + unit) \<times> console" where
  "account_list svc tc fault st con =
    (case list_accounts svc fault st of
       Inl e \<Rightarrow> (Inl [lit ''listing accounts'', error_display e], con)
     | Inr accounts \<Rightarrow>
         let con1 = println list_header con;
             con2 = fold (\<lambda>a. println (list_line svc tc a)) accounts con1
         in (Inr (), if accounts = [] then println (lit ''(no accounts)'') con2 else con2))"

section \<open>The entry point\<close>

text \<open>What the surroundings answer to the parts of \<open>main\<close> that startup does not have.\<close>

record ('dt, 'o) main_outside =
  mo_toml_config :: "ustr \<Rightarrow> ustr + file_keys"
  mo_runtime_fault :: "ustr option"
  mo_time :: "('dt, 'o) time_crate"
  mo_clock :: int
  mo_account_salt :: ustr
  mo_account_id :: uuid
  mo_insert_fault :: "ustr option"
  mo_list_fault :: "(list_stage \<times> ustr) option"

definition runtime_new :: "ustr option \<Rightarrow> anyhow + unit" where
  "runtime_new fault =
    (case fault of Some e \<Rightarrow> Inl [lit ''creating tokio runtime'', e] | None \<Rightarrow> Inr ())"

definition run_command :: "('p, 'h) world_outside \<Rightarrow> ('dt, 'o) main_outside \<Rightarrow> ustr option \<Rightarrow> u16 option
    \<Rightarrow> ustr option \<Rightarrow> anyhow + ('p, 'h) server" where
  "run_command wo mo config port bind =
    and_then
      (context_of (lit ''loading configuration'')
        (load (wo_read_to_string wo) (mo_toml_config mo) config
          \<lparr>ov_port = port, ov_bind_address = bind\<rparr>))
      (\<lambda>cfg. and_then (runtime_new (mo_runtime_fault mo)) (\<lambda>_. server_start wo cfg))"

text \<open>What both account commands do first.\<close>

definition account_setup :: "('p, 'h) world_outside \<Rightarrow> ('dt, 'o) main_outside \<Rightarrow> ustr option
    \<Rightarrow> anyhow + store" where
  "account_setup wo mo config =
    and_then
      (context_of (lit ''loading configuration'')
        (load (wo_read_to_string wo) (mo_toml_config mo) config overrides_default))
      (\<lambda>cfg. and_then (from_error (lit ''opening account store'') (open_store wo (cfg_auth cfg)))
        (\<lambda>st. and_then (runtime_new (mo_runtime_fault mo)) (\<lambda>_. Inr st)))"

text \<open>The rows are those of the database file when the command returns.\<close>

definition account_command :: "('p, 'h) world_outside \<Rightarrow> ('dt, 'o) main_outside \<Rightarrow> ustr option
    \<Rightarrow> account_action \<Rightarrow> console \<Rightarrow> (anyhow + unit) \<times> row list \<times> console" where
  "account_command wo mo config action con =
    (case account_setup wo mo config of
       Inl e \<Rightarrow> (Inl e, wo_rows wo, con)
     | Inr st \<Rightarrow>
         (case action of
            Create_account name \<Rightarrow>
              (case account_create (wo_services wo) (mo_clock mo) (mo_account_salt mo) (mo_account_id mo)
                  (mo_insert_fault mo) name st con of
                 (r, st', con') \<Rightarrow> (r, st_rows st', con'))
          | List_accounts \<Rightarrow>
              (case account_list (wo_services wo) (mo_time mo) (mo_list_fault mo) st con of
                 (r, con') \<Rightarrow> (r, st_rows st, con'))))"

text \<open>\<open>main\<close>, with the server that a successful \<open>run\<close> goes on to serve with.\<close>

definition main_entry :: "('p, 'h) world_outside \<Rightarrow> ('dt, 'o) main_outside \<Rightarrow> cli \<Rightarrow> console
    \<Rightarrow> (anyhow + ('p, 'h) server option) \<times> row list \<times> console" where
  "main_entry wo mo cl con =
    (case cli_command cl of
       Run port bind \<Rightarrow>
         ((case run_command wo mo (cli_config cl) port bind of
             Inl e \<Rightarrow> Inl e
           | Inr s \<Rightarrow> Inr (Some s)), wo_rows wo, con)
     | Account_command action \<Rightarrow>
         (case account_command wo mo (cli_config cl) action con of
            (Inl e, rows, con') \<Rightarrow> (Inl e, rows, con')
          | (Inr _, rows, con') \<Rightarrow> (Inr None, rows, con')))"

section \<open>Reading a password\<close>

text \<open>What can be typed as a password: no line feed, and no carriage return at its end.\<close>

definition typeable :: "ustr \<Rightarrow> bool" where
  "typeable p = (valid_str p \<and> 10 \<notin> set p \<and> strip_line_end p = p)"

lemma take_line_append: "10 \<notin> set xs \<Longrightarrow> take_line (xs @ 10 # rest) = (xs @ [10], rest)"
  by (induction xs) auto

lemma take_line_end: "10 \<notin> set xs \<Longrightarrow> take_line xs = (xs, [])"
  by (induction xs) auto

lemma encode_no_LF: "10 \<notin> set s \<Longrightarrow> 10 \<notin> set (encode s)"
  using encode_ascii_mem [of 10 s] by auto

lemma encode_small [simp]: "encode [10] = [10]" "encode [13] = [13]"
  by (simp_all add: encode_char_def byte_def)

lemma strip_line_end_snoc [simp]:
  "strip_line_end (s @ [10]) = strip_line_end s"
  by (simp add: strip_line_end_def trim_end_where_append)

lemma trim_end_LF: "10 \<notin> set s \<Longrightarrow> trim_end_where (\<lambda>c. c = 10) s = s"
  by (cases s rule: rev_cases) (auto simp: trim_end_where_append)

lemma strip_line_end_CR: "10 \<notin> set s \<Longrightarrow> strip_line_end (s @ [13]) = strip_line_end s"
  by (simp add: strip_line_end_def trim_end_where_append trim_end_LF)

lemma from_utf8_text: "valid_str s \<Longrightarrow> bs = encode s \<Longrightarrow> from_utf8 bs = Some s"
  by simp

lemma read_password_line:
  assumes "\<not> con_is_terminal con" "con_read_fault con (con_calls con) = None"
    and "typeable p" "eol \<in> {[10], [13, 10]}" "con_stdin con = encode (p @ eol) @ rest"
  shows "read_password prompt con =
    (Inr p, con\<lparr>con_calls := con_calls con + 1, con_stdin := rest, con_err := con_err con @ prompt\<rparr>)"
proof -
  let ?q = "p @ butlast eol"
  have q: "10 \<notin> set ?q" "p @ eol = ?q @ [10]" "valid_str (p @ eol)"
    using assms(3,4) by (auto simp: typeable_def valid_str_def scalar_def)
  then have "con_stdin con = encode ?q @ 10 # rest"
    using assms(5) by (simp only: encode_append encode_small append_assoc append_Cons append_Nil)
  then have "take_line (con_stdin con) = (encode ?q @ [10], rest)"
    using take_line_append [OF encode_no_LF [OF q(1)]] by simp
  moreover have "from_utf8 (encode ?q @ [10]) = Some (p @ eol)"
    by (rule from_utf8_text [OF q(3)]) (simp only: q(2) encode_append encode_small)
  moreover have "strip_line_end (p @ eol) = p"
    using assms(3,4) q(1) strip_line_end_CR [of p] strip_line_end_snoc [of "p @ [13]"]
    by (auto simp: typeable_def)
  ultimately show ?thesis
    using assms(1,2) by (simp add: read_password_def read_line_def eprint_def Let_def)
qed

lemma read_password_keeps:
  "con_out (snd (read_password prompt con)) = con_out con"
  by (auto simp: read_password_def prompt_password_def read_line_def eprint_def Let_def
      split: option.splits prod.splits sum.splits)

section \<open>Creating and listing\<close>

lemma account_create_Inl:
  assumes "account_create svc clock salt fresh fault name st con = (Inl e, st', con')"
  shows "st' = st \<and> con_out con' = con_out con"
proof -
  have keeps: "read_password pr c = (r, c') \<Longrightarrow> con_out c' = con_out c" for pr c r c'
    using read_password_keeps [of pr c] by simp
  show ?thesis
    using assms unfolding account_create_def Let_def
    by (auto split: if_splits prod.splits sum.splits dest!: keeps create_account_Inl)
qed

lemma account_create_Inr:
  assumes "account_create svc clock salt fresh fault name st con = (Inr u, st', con')"
  obtains p con1 con2 a where
    "trim name \<noteq> []" "read_password (lit ''Password: '') con = (Inr p, con1)"
    "read_password (lit ''Confirm:  '') con1 = (Inr p, con2)" "p \<noteq> []"
    "create_account svc clock salt fresh fault (trim name) p st = (Inr a, st')"
    "con' = println (lit ''Account '' @ [39] @ trim name @ [39] @ lit '' created.'') con2"
  using assms unfolding account_create_def Let_def
  by (auto simp del: lit_simps split: if_splits prod.splits sum.splits)

lemma account_create_succeeds:
  assumes "trim name \<noteq> []" "read_password (lit ''Password: '') con = (Inr p, con1)"
    and "read_password (lit ''Confirm:  '') con1 = (Inr p, con2)" "p \<noteq> []"
    and "create_account svc clock salt fresh fault (trim name) p st = (Inr a, st')"
  shows "account_create svc clock salt fresh fault name st con =
    (Inr (), st', println (lit ''Account '' @ [39] @ trim name @ [39] @ lit '' created.'') con2)"
  using assms by (simp add: account_create_def Let_def del: lit_simps)

lemma fold_println:
  "con_out (fold (\<lambda>a. println (f a)) xs con) = con_out con @ concat (map (\<lambda>a. f a @ [10]) xs)"
  by (induction xs arbitrary: con) (simp_all add: println_def)

text \<open>An accepted password is accepted by any store opened on the same rows.\<close>

lemma verify_same_rows:
  assumes "fst (verify_credentials svc fault u p st) = Inr (Some a)"
    and "st_rows st' = st_rows st" and "\<not> st_poisoned st'"
  shows "fst (verify_credentials svc fault u p st') = Inr (Some a)"
  using assms
  by (auto simp: verify_credentials_def split: if_splits sum.splits query_error.splits)

lemma store_open_fields:
  "store_open svc parent mkdir_fault open_fault schema_fault rows salt ps = Inr st \<Longrightarrow>
   st_rows st = rows \<and> \<not> st_poisoned st \<and> st_params st = ps"
  by (auto simp: store_open_def and_then_Inr_iff simp del: lit_simps split: if_splits option.splits)

lemma account_setup_Inr:
  assumes "account_setup wo mo config = Inr st"
  obtains ac where "open_store wo ac = Inr st" "st_rows st = wo_rows wo"
proof -
  obtain c :: app_config where "from_error (lit ''opening account store'') (open_store wo (cfg_auth c)) = Inr st"
    using assms by (auto simp: account_setup_def and_then_Inr_iff simp del: lit_simps)
  then have op: "open_store wo (cfg_auth c) = Inr st"
    by (simp add: from_error_def)
  moreover have "st_rows st = wo_rows wo"
    using store_open_fields op unfolding open_store_def by metis
  ultimately show thesis
    using that by blast
qed

text \<open>\<open>account create\<close> either fails before it has a store or acts on one with the rows.\<close>

lemma create_command_cases:
  assumes "account_command wo mo config (Create_account name) con = (r, rows', con')"
  obtains (early) e where "r = Inl e" "rows' = wo_rows wo" "con' = con"
  | (opened) ac st st' where "open_store wo ac = Inr st" "st_rows st = wo_rows wo" "rows' = st_rows st'"
      "account_create (wo_services wo) (mo_clock mo) (mo_account_salt mo) (mo_account_id mo)
        (mo_insert_fault mo) name st con = (r, st', con')"
proof (cases "account_setup wo mo config")
  case (Inl e)
  then show thesis
    using assms early [of e] by (auto simp: account_command_def)
next
  case (Inr st)
  then obtain ac where "open_store wo ac = Inr st" "st_rows st = wo_rows wo"
    by (rule account_setup_Inr)
  moreover have "\<exists>st'. rows' = st_rows st' \<and> account_create (wo_services wo) (mo_clock mo)
      (mo_account_salt mo) (mo_account_id mo) (mo_insert_fault mo) name st con = (r, st', con')"
    using assms by (simp add: account_command_def Inr split: prod.splits)
  ultimately show thesis
    using opened by blast
qed

end
