(* ===== verification/CliProps.thy ===== *)
theory CliProps
  imports Cli ServerProps
begin

text \<open>
  What the command line guarantees: a password is read the same from every kind of line
  end, an account that \<open>account create\<close> reports can log in to a server opened on the same
  database, a creation that fails changes nothing and says nothing on standard output, the
  listing prints every account once, and what the table it prints looks like. One property
  relates the two ways passwords enter the program: the command line takes any that is not
  empty, the session hands on only trimmed ones that are no terminator.
\<close>

section \<open>Instances for the witnesses\<close>

definition typed :: "ustr \<Rightarrow> console" where
  "typed s =
    \<lparr>con_is_terminal = False, con_prompted = (\<lambda>_ _. Inr []), con_read_fault = (\<lambda>_. None),
     con_calls = 0, con_stdin = encode s, con_out = [], con_err = []\<rparr>"

definition plain_time :: "(int, unit) time_crate" where
  "plain_time =
    \<lparr>from_unix_timestamp = Some, current_local_offset = None, to_offset = (\<lambda>t _. t),
     format_date = (\<lambda>_ t. Some (i64_to_string t))\<rparr>"

definition example_mo :: "(int, unit) main_outside" where
  "example_mo =
    \<lparr>mo_toml_config = (\<lambda>_. Inr no_keys), mo_runtime_fault = None, mo_time = plain_time,
     mo_clock = 7, mo_account_salt = [], mo_account_id = 2, mo_insert_fault = None,
     mo_list_fault = None\<rparr>"

section \<open>Passwords\<close>

text \<open>
  On a standard input that is no terminal, a password read from a line is the line's
  text without its end, be that a line feed or a carriage return and a line feed; the rest of
  the input is left unread for the confirmation, and the prompt goes to standard error only.
\<close>

theorem read_password_roundtrip:
  assumes "\<not> con_is_terminal con" and "con_read_fault con (con_calls con) = None"
    and "typeable p" and "eol \<in> {[10], [13, 10]}" and "con_stdin con = encode (p @ eol) @ rest"
  shows "read_password prompt con =
    (Inr p, con\<lparr>con_calls := con_calls con + 1, con_stdin := rest, con_err := con_err con @ prompt\<rparr>)"
  using assms by (rule read_password_line)

theorem read_password_roundtrip_witness:
  "fst (read_password (lit ''Password: '') (typed (lit '' pw'' @ [13, 10] @ lit ''pw''))) = Inr (lit '' pw'')"
proof -
  have "typeable (lit '' pw'')" by code_simp
  from read_password_roundtrip [where p = "lit '' pw''" and eol = "[13, 10]" and rest = "encode (lit ''pw'')"
      and con = "typed (lit '' pw'' @ [13, 10] @ lit ''pw'')", OF _ _ this]
  show ?thesis
    by (simp add: typed_def del: lit_simps)
qed

text \<open>
  C14: when \<open>account create\<close> succeeds, the name it was given is not blank, a password that
  is not empty was read at the prompt and then the same one at the prompt for confirmation, the rows of the database are the old ones and one
  more, and a store opened on them afterwards verifies that password for the trimmed name,
  and any name the database compares equal to it, as the new account.
\<close>

theorem created_on_cli_verifies:
  assumes "services_ok (wo_services wo)" and "rows_ok (wo_services wo) (wo_rows wo)"
    and "main_entry wo mo \<lparr>cli_config = cfg, cli_command = Account_command (Create_account name)\<rparr> con =
      (Inr res, rows', con')"
    and "store_open (wo_services wo) parent mkdir_fault open_fault schema_fault rows' salt ps = Inr st"
  shows "trim name \<noteq> [] \<and> res = None \<and> (\<exists>r. rows' = wo_rows wo @ [r] \<and> row_username r = trim name) \<and>
    con_out con' = con_out con @ lit ''Account '' @ [39] @ trim name @ [39] @ lit '' created.'' @ [10] \<and>
    (\<exists>p con1 con2 a. p \<noteq> [] \<and> read_password (lit ''Password: '') con = (Inr p, con1) \<and>
      read_password (lit ''Confirm:  '') con1 = (Inr p, con2) \<and> acc_username a = trim name \<and>
      (\<forall>u. nocase_key (wo_services wo) u = nocase_key (wo_services wo) (trim name) \<longrightarrow>
        fst (verify_credentials (wo_services wo) None u p st) = Inr (Some a)))"
proof -
  let ?svc = "wo_services wo"
  obtain u where com: "account_command wo mo cfg (Create_account name) con = (Inr u, rows', con')"
    and res: "res = None"
    using assms(3) by (auto simp: main_entry_def split: sum.splits prod.splits)
  from com obtain ac st0 st1 where st0: "open_store wo ac = Inr st0" "st_rows st0 = wo_rows wo"
    and rows': "rows' = st_rows st1"
    and cr: "account_create ?svc (mo_clock mo) (mo_account_salt mo) (mo_account_id mo) (mo_insert_fault mo)
      name st0 con = (Inr u, st1, con')"
    by (rule create_command_cases) auto
  from cr obtain p con1 con2 a where p: "trim name \<noteq> []" "p \<noteq> []"
    "read_password (lit ''Password: '') con = (Inr p, con1)"
    "read_password (lit ''Confirm:  '') con1 = (Inr p, con2)"
    "create_account ?svc (mo_clock mo) (mo_account_salt mo) (mo_account_id mo) (mo_insert_fault mo)
      (trim name) p st0 = (Inr a, st1)"
    "con' = println (lit ''Account '' @ [39] @ trim name @ [39] @ lit '' created.'') con2"
    by (rule account_create_Inr)
  have "ready ?svc st0"
    using store_open_ok [OF assms(1,2)] st0(1) p(5)
    by (auto simp: ready_def create_account_Inr open_store_def)
  then have "\<forall>u. nocase_key ?svc u = nocase_key ?svc (trim name) \<longrightarrow>
      fst (verify_credentials ?svc None u p st) = Inr (Some a)"
    using verify_created [OF _ p(5)] verify_same_rows [of ?svc None _ p st1 a st]
      store_open_fields [OF assms(4)] rows' by simp
  moreover have "con_out con2 = con_out con"
    using read_password_keeps [of "lit ''Password: ''" con] read_password_keeps [of "lit ''Confirm:  ''" con1]
    by (simp add: p(3,4) del: lit_simps)
  moreover have "acc_username a = trim name" "\<exists>r. rows' = wo_rows wo @ [r] \<and> row_username r = trim name"
    using p(5) by (auto simp: create_account_Inr account_from_row_def rows' st0(2) new_row_def)
  ultimately show ?thesis
    using p(1-4) res by (auto simp: p(6) println_def simp del: lit_simps)
qed

theorem created_on_cli_verifies_witness:
  "\<exists>st p. store_open plain_services None None None None
      (wo_rows example_wo @ [\<lparr>row_id = [2], row_username = lit ''bob'', row_hash = lit ''x'',
        row_created_at = 7, row_last_login_at = None\<rparr>]) [] test_fast = Inr st \<and>
     (\<exists>con1 con2. read_password (lit ''Password: '') (typed (lit ''x'' @ [10] @ lit ''x'')) = (Inr p, con1) \<and>
        read_password (lit ''Confirm:  '') con1 = (Inr p, con2)) \<and>
     is_ok (fst (verify_credentials plain_services None (lit ''BOB'') p st))"
proof -
  let ?rows = "wo_rows example_wo @ [\<lparr>row_id = [2], row_username = lit ''bob'', row_hash = lit ''x'',
        row_created_at = 7, row_last_login_at = None\<rparr>]"
  let ?con = "typed (lit ''x'' @ [10] @ lit ''x'')"
  let ?cl = "\<lparr>cli_config = None, cli_command = Account_command (Create_account (lit '' bob ''))\<rparr>"
  obtain r rows' con' where run: "main_entry example_wo example_mo ?cl ?con = (r, rows', con')"
    by (cases "main_entry example_wo example_mo ?cl ?con")
  have "is_ok (fst (main_entry example_wo example_mo ?cl ?con))"
    by code_simp
  then obtain res where res: "r = Inr res"
    using run by (cases r) simp_all
  have "fst (snd (main_entry example_wo example_mo ?cl ?con)) = ?rows"
    by code_simp
  then have rows': "rows' = ?rows"
    using run by simp
  have svc: "wo_services example_wo = plain_services"
    by (simp add: example_wo_def)
  have op: "store_open plain_services None None None None ?rows [] test_fast =
      Inr \<lparr>st_rows = ?rows, st_params = test_fast, st_dummy_hash = lit ''dummy_password_for_timing'',
        st_poisoned = False\<rparr>"
    by code_simp
  have "nocase_key plain_services (lit ''BOB'') = nocase_key plain_services (trim (lit '' bob ''))"
    by code_simp
  moreover obtain p con1 con2 a where rp:
    "read_password (lit ''Password: '') ?con = (Inr p, con1)" "read_password (lit ''Confirm:  '') con1 = (Inr p, con2)"
    "\<forall>u. nocase_key plain_services u = nocase_key plain_services (trim (lit '' bob '')) \<longrightarrow>
      fst (verify_credentials plain_services None u p \<lparr>st_rows = ?rows, st_params = test_fast,
        st_dummy_hash = lit ''dummy_password_for_timing'', st_poisoned = False\<rparr>) = Inr (Some a)"
    using created_on_cli_verifies [OF example_wo_ok run [unfolded res rows'] op [folded svc]] unfolding svc by blast
  ultimately have v: "fst (verify_credentials plain_services None (lit ''BOB'') p \<lparr>st_rows = ?rows,
      st_params = test_fast, st_dummy_hash = lit ''dummy_password_for_timing'', st_poisoned = False\<rparr>) = Inr (Some a)"
    by blast
  show ?thesis
  proof (intro exI conjI)
    show "store_open plain_services None None None None ?rows [] test_fast =
      Inr \<lparr>st_rows = ?rows, st_params = test_fast, st_dummy_hash = lit ''dummy_password_for_timing'',
        st_poisoned = False\<rparr>"
      by (rule op)
    show "read_password (lit ''Password: '') ?con = (Inr p, con1)" "read_password (lit ''Confirm:  '') con1 = (Inr p, con2)"
      by (rule rp)+
    show "is_ok (fst (verify_credentials plain_services None (lit ''BOB'') p \<lparr>st_rows = ?rows,
      st_params = test_fast, st_dummy_hash = lit ''dummy_password_for_timing'', st_poisoned = False\<rparr>))"
      unfolding v by simp
  qed
qed

text \<open>
  C39: whatever makes \<open>account create\<close> fail, the rows of the database are as they were and
  nothing is printed on standard output; a blank name fails before a password is asked for.
\<close>

theorem failed_creation_changes_nothing:
  assumes "main_entry wo mo \<lparr>cli_config = cfg, cli_command = Account_command (Create_account name)\<rparr> con =
      (Inl e, rows', con')"
  shows "rows' = wo_rows wo \<and> con_out con' = con_out con \<and> (trim name = [] \<longrightarrow> con' = con)"
proof -
  have com: "account_command wo mo cfg (Create_account name) con = (Inl e, rows', con')"
    using assms by (auto simp: main_entry_def split: sum.splits prod.splits)
  from com show ?thesis
  proof (cases rule: create_command_cases)
    case (opened ac st st')
    moreover have "trim name = [] \<longrightarrow> con' = con"
      using opened(4) by (auto simp: account_create_def)
    ultimately show ?thesis
      using account_create_Inl [OF opened(4)] by simp
  qed simp
qed



text \<open>
  The columns of the table do not line up with its header: with ids of 36 characters the
  usernames start in column 37, the header's USERNAME in column 39, since the width given for
  the id is not applied.
\<close>

theorem list_columns_misaligned:
  assumes "length (uuid_text svc (account_id_uuid (acc_id a))) = 36"
  shows "take (length (acc_username a)) (drop 37 (list_line svc tc a)) = acc_username a \<and>
    take 8 (drop 39 list_header) = lit ''USERNAME'' \<and>
    (\<forall>n < 39. take 8 (drop n list_header) \<noteq> lit ''USERNAME'')"
proof (intro conjI)
  show "take (length (acc_username a)) (drop 37 (list_line svc tc a)) = acc_username a"
    using assms by (cases "acc_id a") (simp add: list_line_def account_id_display_def pad_right_def)
  show "take 8 (drop 39 list_header) = lit ''USERNAME''"
    by code_simp
  have "\<forall>n \<in> set [0..<39]. take 8 (drop n list_header) \<noteq> lit ''USERNAME''"
    by code_simp
  then show "\<forall>n < 39. take 8 (drop n list_header) \<noteq> lit ''USERNAME''"
    by simp
qed

text \<open>
  C40: \<open>account create\<close> takes any password that is not empty as it was typed, and succeeds
  with a free name and a working store, but a session can present that password only if it
  has no white space at its ends and is no word that ends a session. For any other password
  the account is made and can never be logged into with it.
\<close>

theorem created_password_presentable:
  assumes "ready svc st" and "generate_hash svc salt p (st_params st) = Inr h" and "0 \<le> clock"
    and "\<forall>r \<in> set (st_rows st). row_id r \<noteq> uuid_text svc fresh \<and>
      nocase_key svc (row_username r) \<noteq> nocase_key svc (trim name)"
    and "trim name \<noteq> []" and "p \<noteq> []" and "typeable p" and "\<not> con_is_terminal con"
    and "\<forall>n. con_read_fault con n = None" and "con_stdin con = encode (p @ [10] @ p @ [10])"
  shows "(\<exists>st' con'. account_create svc clock salt fresh None name st con = (Inr (), st', con') \<and>
      map row_hash (st_rows st') = map row_hash (st_rows st) @ [h]) \<and>
    ((\<exists>s l n. handle_input s l = AuthPending n p) \<longleftrightarrow> credential_text p)"
proof
  define con1 where "con1 = con\<lparr>con_calls := con_calls con + 1, con_stdin := encode (p @ [10]),
    con_err := con_err con @ lit ''Password: ''\<rparr>"
  have r1: "read_password (lit ''Password: '') con = (Inr p, con1)"
    unfolding con1_def using assms(7-10) by (intro read_password_line [where eol = "[10]"]) simp_all
  have "\<exists>con2. read_password (lit ''Confirm:  '') con1 = (Inr p, con2)"
    using read_password_line [where con = con1 and p = p and eol = "[10]" and rest = "[]"
        and prompt = "lit ''Confirm:  ''"] assms(7-9)
    by (simp add: con1_def del: lit_simps)
  then obtain con2 where r2: "read_password (lit ''Confirm:  '') con1 = (Inr p, con2)" ..
  have now: "unix_now clock = Some (sint (word_of_int clock :: u64))"
    using assms(3) by (simp add: unix_now_def)
  have cr: "create_account svc clock salt fresh None (trim name) p st =
      (Inr (account_from_row (AccountId fresh) (trim name) (sint (word_of_int clock :: u64)) None),
       st\<lparr>st_rows := st_rows st @ [new_row svc fresh (trim name) h (sint (word_of_int clock :: u64))]\<rparr>)"
    using assms(1,2,4) by (simp add: create_account_Inr now ready_def)
  show "\<exists>st' con'. account_create svc clock salt fresh None name st con = (Inr (), st', con') \<and>
      map row_hash (st_rows st') = map row_hash (st_rows st) @ [h]"
    by (intro exI conjI, rule account_create_succeeds [OF assms(5) r1 r2 assms(6) cr])
       (simp add: new_row_def)
  show "(\<exists>s l n. handle_input s l = AuthPending n p) \<longleftrightarrow> credential_text p"
  proof
    assume "\<exists>s l n. handle_input s l = AuthPending n p"
    then obtain s l n where h: "handle_input s l = AuthPending n p" by blast
    then show "credential_text p"
      by (rule_tac handle_input_cases [of l s]) auto
  next
    assume "credential_text p"
    then have "handle_input \<lparr>ses_state = Authenticating (Some []), ses_registry = registry_new []\<rparr> p =
        AuthPending [] p"
      by (simp add: handle_input_def handle_password_input_def credential_text_def Let_def)
    then show "\<exists>s l n. handle_input s l = AuthPending n p" by blast
  qed
qed

theorem failed_creation_changes_nothing_witness:
  "fst (snd (main_entry example_wo example_mo
     \<lparr>cli_config = None, cli_command = Account_command (Create_account (lit ''ALICE''))\<rparr>
     (typed (lit ''x'' @ [10] @ lit ''x'')))) = wo_rows example_wo"
proof -
  let ?m = "main_entry example_wo example_mo
     \<lparr>cli_config = None, cli_command = Account_command (Create_account (lit ''ALICE''))\<rparr>
     (typed (lit ''x'' @ [10] @ lit ''x''))"
  obtain r rows' con' where run: "?m = (r, rows', con')"
    by (cases ?m)
  have "\<not> is_ok (fst ?m)"
    by code_simp
  then obtain e where e: "r = Inl e"
    using run by (cases r) simp_all
  show ?thesis
    using failed_creation_changes_nothing [OF run [unfolded e]] run by simp
qed

theorem list_columns_misaligned_witness:
  "take 1 (drop 37 (list_line (plain_services\<lparr>uuid_text := \<lambda>u. replicate 36 48\<rparr>) plain_time
     (account_from_row (AccountId 1) (lit ''z'') 0 None))) = lit ''z'' \<and>
   take 8 (drop 39 list_header) = lit ''USERNAME''"
proof -
  let ?svc = "plain_services\<lparr>uuid_text := \<lambda>u. replicate 36 48\<rparr>"
  let ?a = "account_from_row (AccountId 1) (lit ''z'') 0 None"
  have "length (uuid_text ?svc (account_id_uuid (acc_id ?a))) = 36"
    by simp
  from list_columns_misaligned [OF this, of plain_time] show ?thesis
    by (simp add: account_from_row_def)
qed

theorem created_password_presentable_witness:
  "\<nexists>s l n. handle_input s l = AuthPending n (lit ''Quit'')"
proof -
  have h: "generate_hash plain_services [] (lit ''Quit'') (st_params alice_store) = Inr (lit ''Quit'')"
    by code_simp
  have t: "typeable (lit ''Quit'')" and n: "trim (lit ''bob'') \<noteq> []" and c: "\<not> credential_text (lit ''Quit'')"
    by code_simp+
  have "\<forall>r \<in> set (st_rows alice_store). row_id r \<noteq> uuid_text plain_services 2 \<and>
      nocase_key plain_services (row_username r) \<noteq> nocase_key plain_services (trim (lit ''bob''))"
    by code_simp
  from created_password_presentable [OF alice_store_ready h _ this n _ t, of 7 "typed (lit ''Quit'' @ [10] @ lit ''Quit'' @ [10])"] c
  show ?thesis
    by (simp add: typed_def)
qed

end
