(* ===== verification/Exchange.thy ===== *)
theory Exchange
  imports ConnectionProps
begin

text \<open>
  A conversation seen by the client: what it sends, and what it can then read. The lemmas
  \<open>say_\<dots>\<close> give the answer to one line in each state of a session, so that a whole
  conversation on the handler joined to its reader is followed by rewriting. The text of the
  answers stays symbolic.
\<close>

section \<open>What the client reads\<close>

definition read_sent :: "link \<Rightarrow> bytes \<times> link" where
  "read_sent lk =
    (w_sent (cn_writer (ln_conn lk)),
     lk\<lparr>ln_conn := (ln_conn lk)\<lparr>cn_writer := (cn_writer (ln_conn lk))\<lparr>w_sent := []\<rparr>\<rparr>\<rparr>)"

definition contains_all :: "ustr list \<Rightarrow> ustr \<Rightarrow> bool" where
  "contains_all parts s = list_all (\<lambda>p. str_contains p s) parts"

definition reads_all :: "ustr list \<Rightarrow> bytes \<Rightarrow> bool" where
  "reads_all parts reply = contains_all parts (from_utf8_lossy reply)"

definition holds_bytes :: "bytes \<Rightarrow> bytes \<Rightarrow> bool" where
  "holds_bytes pat s = list_ex (\<lambda>n. take (length pat) (drop n s) = pat) [0..<length s]"

text \<open>What happens at the socket, and the texts the client must then find in what it reads.\<close>

type_synonym exchange = "wire_event \<times> ustr list"

fun talk :: "('p, 'h) session_context \<Rightarrow> exchange list \<Rightarrow> link \<Rightarrow> link option" where
  "talk cx [] lk = Some lk"
| "talk cx ((ev, parts) # rest) lk =
    (case read_sent (wire_step cx ev lk) of
       (reply, lk') \<Rightarrow> if reads_all parts reply then talk cx rest lk' else None)"

text \<open>The handler has returned without an error, and the writer is shut down.\<close>

definition returned :: "link option \<Rightarrow> bool" where
  "returned outcome =
    (case outcome of
       Some lk \<Rightarrow> (case close_link lk of (r, w, sh) \<Rightarrow> r = Some (Inr ()) \<and> w_shut w)
     | None \<Rightarrow> False)"

section \<open>The codec on text\<close>

lemma strip_loop_text:
  "\<not> in_subnegotiation c \<Longrightarrow> IAC \<notin> set buf \<Longrightarrow> rd \<le> length buf \<Longrightarrow>
   strip_loop c buf rd rd = (c, buf, length buf)"
proof (induction "length buf - rd" arbitrary: rd)
  case 0
  then show ?case by (subst strip_loop.simps) simp
next
  case (Suc n)
  then have lt: "rd < length buf"
    by simp
  then have "buf ! rd \<noteq> IAC"
    using Suc.prems(2) nth_mem [OF lt] by metis
  then show ?case
    using lt Suc.hyps(1) [of "rd + 1"] Suc.hyps(2) Suc.prems by (subst strip_loop.simps) simp
qed

lemma strip_iac_exact: "\<not> in_subnegotiation c \<Longrightarrow> IAC \<notin> set buf \<Longrightarrow> strip_iac c buf = (c, buf)"
  by (simp add: strip_iac_def strip_loop_text)

definition open_codec :: "codec \<Rightarrow> bool" where
  "open_codec c = (\<not> in_subnegotiation c \<and> \<not> discarding c)"

lemma open_codec_new [simp]: "open_codec codec_new"
  by (simp add: open_codec_def codec_new_def)

lemma drain_end:
  "\<not> in_subnegotiation c \<Longrightarrow> drain_all decode c [] = ([], c, [])"
  by (cases "discarding c")
     (simp_all add: telnet.drain_all_unfold strip_iac_exact decode_drop [of c "[]" c "[]"]
        decode_wait [of c "[]" c "[]"])

text \<open>A line of text is delivered and leaves the codec as it was.\<close>

lemma feed_line:
  assumes "open_codec c" "no_line_end l" "length (encode l) + 2 \<le> max_buffer_size c"
  shows "feed c [] (encode l @ [13, 10]) = ([Inr (Line l)], c, [])"
proof -
  let ?b = "encode l @ [CR, LF]"
  have c: "\<not> in_subnegotiation c" "\<not> discarding c"
    using assms(1) by (simp_all add: open_codec_def)
  have clean: "CR \<notin> set (encode l)" "LF \<notin> set (encode l)" "valid_str l"
    using assms(2) by (simp_all add: no_line_end_def terminators_not_in_encode)
  then have "find_line_terminator ?b = Some (length (encode l))"
    by (simp add: find_line_terminator_append clean_None)
  then have "decode c ?b = (Inr (Some (Line l)), c, [])"
    using decode_line [of c ?b c ?b] strip_iac_exact [of c ?b] c assms(3) clean(3)
    by (simp add: IAC_CR_LF lossy_decode_with_warning_def from_utf8_lossy_encode
        consume_terminator_def nth_append)
  then show ?thesis
    using drain_end [OF c(1)]
    by (simp add: feed_def telnet.drain_all_unfold [of c "encode l @ [13, 10]"] CR_def LF_def)
qed

text \<open>A line that is too long for the limit, and the line ending that ends the discarding.\<close>

lemma feed_overlong:
  assumes "open_codec c" "IAC \<notin> set bs" "LF \<notin> set bs" "CR \<notin> set bs"
    and "max_line_length c < length bs" "length bs \<le> max_buffer_size c"
  shows "feed c [] bs = ([Inr LineTooLong], c\<lparr>discarding := True\<rparr>, [])"
proof -
  have c: "\<not> in_subnegotiation c" "\<not> discarding c"
    using assms(1) by (simp_all add: open_codec_def)
  have "decode c bs = (Inr (Some LineTooLong), c\<lparr>discarding := True\<rparr>, [])"
    using decode_too_long [OF _ strip_iac_exact [OF c(1) assms(2)]] c assms by (simp add: clean_None)
  moreover have "drain_all decode (c\<lparr>discarding := True\<rparr>) [] = ([], c\<lparr>discarding := True\<rparr>, [])"
    using c by (intro drain_end) simp
  ultimately show ?thesis
    by (simp add: feed_def telnet.drain_all_unfold [of c bs])
qed

lemma feed_end_of_overlong:
  assumes "open_codec c" "2 \<le> max_buffer_size c"
  shows "feed (c\<lparr>discarding := True\<rparr>) [] [13, 10] = ([], c, [])"
proof -
  let ?d = "c\<lparr>discarding := True\<rparr>"
  have c: "\<not> in_subnegotiation c" "c\<lparr>discarding := False\<rparr> = c"
    using assms(1) by (simp_all add: open_codec_def)
  have s: "strip_iac ?d [CR, LF] = (?d, [CR, LF])"
    using c by (intro strip_iac_exact) (simp_all add: IAC_CR_LF)
  have "decode ?d [CR, LF] = decode c []"
    using decode_resume [OF _ s] assms(2) c by (simp add: consume_terminator_def)
  then show ?thesis
    using drain_end [OF c(1)] drain_all_decode_eq [of ?d "[CR, LF]" c "[]"]
    by (simp add: feed_def CR_def LF_def)
qed

section \<open>A line in each state\<close>

text \<open>
  \<open>sits c reg st fails n sh\<close>: a connection that waits for a line, with nothing in the
  reader's buffer, whose client has read all that was sent; \<open>left\<close> is such a connection
  once the handler has left its loop.
\<close>

definition sits :: "codec \<Rightarrow> world_registry \<Rightarrow> session_state \<Rightarrow> u32 \<Rightarrow> u64 \<Rightarrow> shared \<Rightarrow> link" where
  "sits c reg st fails n sh =
    \<lparr>ln_codec = c, ln_buffer = [],
     ln_conn =
       \<lparr>cn_session = \<lparr>ses_state = st, ses_registry = reg\<rparr>, cn_writer = writer_new [],
        cn_auth_failures = fails, cn_line_count = n, cn_closing = False\<rparr>,
     ln_shared = sh\<rparr>"

definition left :: "link \<Rightarrow> link" where
  "left lk = lk\<lparr>ln_conn := close (ln_conn lk)\<rparr>"

definition says :: "ambient \<Rightarrow> ustr \<Rightarrow> wire_event" where
  "says am l = Chunk am (encode l @ [13, 10])"

definition sent_line :: "codec \<Rightarrow> ustr \<Rightarrow> bool" where
  "sent_line c l = (open_codec c \<and> no_line_end l \<and> length (encode l) + 2 \<le> max_buffer_size c)"

lemma returned_left [simp]: "returned (Some (left (sits c reg st fails n sh)))"
  by (simp add: returned_def close_link_def left_def close_def sits_def writer_shutdown_def)

lemma shared_left [simp]: "ln_shared (left (sits c reg st fails n sh)) = sh"
  by (simp add: left_def sits_def)

lemma wire_line:
  assumes "sent_line c l"
  shows "wire_step cx (says am l) (sits c reg st fails n sh) =
    (case on_line cx am l (ln_conn (sits c reg st fails n sh), sh) of
       (cn, sh') \<Rightarrow> \<lparr>ln_codec = c, ln_buffer = [], ln_conn = cn, ln_shared = sh'\<rparr>)"
  using feed_line [of c l] assms
  by (simp add: wire_step_def says_def sent_line_def sits_def client_events_def split: prod.splits)

lemmas [says_defs] = on_line_def sits_def left_def close_def read_sent_def writer_new_def
  send_no_faults send_or_close_def enter_def apply_state_def Let_def

lemma say_stay:
  "sent_line c l \<Longrightarrow> handle_input \<lparr>ses_state = st, ses_registry = reg\<rparr> l = Stay out \<Longrightarrow>
   read_sent (wire_step cx (says am l) (sits c reg st fails n sh)) =
   (encode out, sits c reg st fails (n + 1) sh)"
  by (subst wire_line) (simp_all add: says_defs on_stay_def)

lemma say_name:
  "sent_line c u \<Longrightarrow> credential_text u \<Longrightarrow>
   read_sent (wire_step cx (says am u) (sits c reg (Authenticating None) fails n sh)) =
   (IAC_WILL_ECHO @ encode PASSWORD_PROMPT, sits c reg (Authenticating (Some u)) fails (n + 1) sh)"
  by (subst wire_line)
     (simp_all add: says_defs handle_input_def handle_username_input_def credential_text_def
        on_advance_def echo_prefix_def)

lemma say_end:
  "sent_line c l \<Longrightarrow> handle_input \<lparr>ses_state = st, ses_registry = reg\<rparr> l = Disconnect out \<Longrightarrow>
   read_sent (wire_step cx (says am l) (sits c reg st fails n sh)) =
   ((case st of Authenticating (Some _) \<Rightarrow> IAC_WONT_ECHO | _ \<Rightarrow> []) @ encode out,
    left (sits c reg st fails (n + 1) sh))"
  by (subst wire_line)
     (auto simp: says_defs on_disconnect_def is_password_input_def
        split: session_state.splits option.splits)

lemma say_password:
  assumes "sent_line c p" "credential_text p"
    and "fst (verify_credentials (cx_services cx) (am_verify_fault am) u p (sh_store sh)) = Inr (Some a)"
    and "am_meanwhile am = []"
  shows "read_sent (wire_step cx (says am p) (sits c reg (Authenticating (Some u)) fails n sh)) =
    (IAC_WONT_ECHO @ encode (welcome_text a reg),
     sits c reg (WorldSelection a) fails (n + 1) (on_success cx am a sh))"
  using assms
  by (subst wire_line)
     (simp_all add: says_defs handle_input_def handle_password_input_def credential_text_def
      on_auth_pending_def meanwhile_def on_auth_result_def on_completion_def complete_auth_def
      welcome_text_def template_fills del: lit_simps)

lemma say_wrong_password:
  assumes "sent_line c p" "credential_text p"
    and "fst (verify_credentials (cx_services cx) (am_verify_fault am) u p (sh_store sh)) = Inr None"
    and "am_meanwhile am = []"
  shows "read_sent (wire_step cx (says am p) (sits c reg (Authenticating (Some u)) fails n sh)) =
    (if cx_max_login_attempts cx \<le> fails + 1
     then (IAC_WONT_ECHO @ encode AUTH_MAX_RETRIES_MSG,
       left (sits c reg (Authenticating (Some u)) (fails + 1) (n + 1) (on_failure cx am sh)))
     else (IAC_WONT_ECHO @ encode (AUTH_FAILED_MSG @ USERNAME_PROMPT),
       sits c reg (Authenticating None) (fails + 1) (n + 1) (on_failure cx am sh)))"
  using assms
  by (subst wire_line)
     (simp_all add: says_defs handle_input_def handle_password_input_def credential_text_def
      on_auth_pending_def meanwhile_def on_auth_result_def on_completion_def complete_auth_def
      del: lit_simps encode_append)

lemma session_quits: "is_session_terminator l \<Longrightarrow> handle_input s l = Disconnect GOODBYE_MSG"
  by (rule handle_input_cases [of l s]) (auto simp: credential_text_def terminator_not_empty)

lemma say_quit:
  "sent_line c l \<Longrightarrow> is_session_terminator l \<Longrightarrow>
   read_sent (wire_step cx (says am l) (sits c reg st fails n sh)) =
   ((case st of Authenticating (Some _) \<Rightarrow> IAC_WONT_ECHO | _ \<Rightarrow> []) @ encode GOODBYE_MSG,
    left (sits c reg st fails (n + 1) sh))"
  by (rule say_end [OF _ session_quits])

lemma say_shutdown:
  "read_sent (wire_step cx (Shutdown_signal am) (sits c reg st fails n sh)) =
   (encode SHUTDOWN_MSG, left (sits c reg st fails n sh))"
  by (simp add: says_defs wire_step_def)

lemma say_nothing_more:
  "open_codec c \<Longrightarrow>
   read_sent (wire_step cx (Closed_by_peer am) (sits c reg st fails n sh)) =
   ([], left (sits c reg st fails n sh))"
proof -
  assume c: "open_codec c"
  then have "decode c [] = (Inr None, c, [])"
    by (simp add: open_codec_def strip_iac_exact decode_wait [of c "[]" c "[]"])
  then have "decode_eof c [] = (Inr None, c, [])"
    using c by (simp add: decode_eof_def open_codec_def)
  then show ?thesis
    by (simp add: says_defs wire_step_def feed_eof_def telnet_eof.drain_all_unfold client_events_def)
qed

text \<open>Reads that hold something else than a line.\<close>

lemma say_same:
  "feed c [] bs = ([Inr (Line l)], c, []) \<Longrightarrow> sent_line c l \<Longrightarrow>
   wire_step cx (Chunk am bs) (sits c reg st fails n sh) =
   wire_step cx (says am l) (sits c reg st fails n sh)"
  using feed_line [of c l] by (simp add: wire_step_def says_def sits_def sent_line_def)

lemma say_overlong:
  assumes "open_codec c" "IAC \<notin> set bs" "LF \<notin> set bs" "CR \<notin> set bs"
    and "max_line_length c < length bs" "length bs \<le> max_buffer_size c"
  shows "read_sent (wire_step cx (Chunk am bs) (sits c reg st fails n sh)) =
    (encode LINE_TOO_LONG_MSG, sits (c\<lparr>discarding := True\<rparr>) reg st fails n sh)"
  by (simp add: says_defs wire_step_def feed_overlong [OF assms] client_events_def)

lemma say_end_of_overlong:
  "open_codec c \<Longrightarrow> 2 \<le> max_buffer_size c \<Longrightarrow>
   read_sent (wire_step cx (Chunk am [13, 10]) (sits (c\<lparr>discarding := True\<rparr>) reg st fails n sh)) =
   ([], sits c reg st fails n sh)"
  by (simp add: says_defs wire_step_def feed_end_of_overlong client_events_def)

lemma say_too_much:
  "max_buffer_size c < length bs \<Longrightarrow>
   read_sent (wire_step cx (Chunk am bs) (sits c reg st fails n sh)) =
   (encode BUFFER_OVERFLOW_MSG, (left (sits c reg st fails n sh))\<lparr>ln_buffer := bs\<rparr>)"
  by (simp add: says_defs wire_step_def feed_def telnet.drain_all_unfold [of c bs] decode_overflow
      client_events_def)

lemma returned_buffer [simp]: "returned (Some (lk\<lparr>ln_buffer := bs\<rparr>)) = returned (Some lk)"
  by (simp add: returned_def close_link_def Let_def)

section \<open>What the answers contain\<close>

lemma reads_text [simp]: "valid_str s \<Longrightarrow> reads_all parts (encode s) = contains_all parts s"
  by (simp add: reads_all_def from_utf8_lossy_encode)

lemma contains_all_simps [simp]:
  "contains_all [] s"
  "contains_all (p # ps) s = (str_contains p s \<and> contains_all ps s)"
  by (simp_all add: contains_all_def)

lemma reads_nothing [simp]: "reads_all [] reply"
  by (simp add: reads_all_def)

lemma str_contains_append: "str_contains p s \<Longrightarrow> str_contains p (xs @ s)"
  by (auto simp: str_contains_iff) (metis append.assoc)

text \<open>The echo commands before a text are read as characters that stand before it.\<close>

lemma echo_lossy:
  "from_utf8_lossy (IAC_WONT_ECHO @ encode s) = [65533, 65533, 1] @ from_utf8_lossy (encode s)"
  "from_utf8_lossy (IAC_WILL_ECHO @ encode s) = [65533, 65533, 1] @ from_utf8_lossy (encode s)"
  by (simp_all add: byte_defs from_utf8_lossy_step)

lemma reads_after_echo [simp]:
  assumes "valid_str s" "contains_all parts s"
  shows "reads_all parts (IAC_WONT_ECHO @ encode s)" "reads_all parts (IAC_WILL_ECHO @ encode s)"
  using assms str_contains_append [of _ s "[65533, 65533, 1]"]
  by (auto simp: reads_all_def echo_lossy from_utf8_lossy_encode contains_all_def list_all_iff
      simp del: append.simps)

lemma holds_front: "pat \<noteq> [] \<Longrightarrow> holds_bytes pat (pat @ s)"
  by (auto simp: holds_bytes_def list_ex_iff intro!: bexI [of _ 0])

end
