(* ===== verification/WireProps.thy ===== *)
theory WireProps
  imports Exchange
begin

text \<open>
  What the handler joined to its reader guarantees: how the network cuts what a client sends
  into reads does not matter, closing the connection ends the last line as a line ending
  would, the memory a client can make the reader hold is bounded, and no line goes without an
  answer.
\<close>

section \<open>Segmentation\<close>

text \<open>
  C6: the way the network cuts a client's input into reads does not matter. When no cut falls
  inside a CRLF pair, the telnet commands are plain, and the input stays within the limits,
  the whole handler gives the same result, sends the same bytes and leaves the same shared
  state as when all the input arrives in one read.
\<close>

theorem handler_ignores_segmentation:
  assumes "plain (concat chunks)" and "idle codec" and "length (concat chunks) \<le> max_buffer_size codec"
    and "clean_cuts codec [] chunks" and "clean_cuts codec [] [concat chunks]"
  shows "handle_connection_with_codec cx now1 now2 codec (map (Chunk am) chunks) w sh =
    handle_connection_with_codec cx now1 now2 codec [Chunk am (concat chunks)] w sh"
  using arrivals_one_read [OF assms] by (simp add: handle_connection_with_codec_def)

theorem handler_ignores_segmentation_witness:
  "handle_connection_with_codec example_cx 100 100 codec_new
     (map (Chunk example_am) [[97, 108], [255], [251, 1, 105], [13, 10, 112]]) (writer_new []) example_shared =
   handle_connection_with_codec example_cx 100 100 codec_new
     [Chunk example_am (concat [[97, 108], [255], [251, 1, 105], [13, 10, 112]])] (writer_new []) example_shared"
  by (rule handler_ignores_segmentation) code_simp+

section \<open>The end of the input\<close>

lemma decode_unterminated:
  assumes "open_codec c" "IAC \<notin> set d" "LF \<notin> set d" "CR \<notin> set d"
    and "length d \<le> max_line_length c" "length d \<le> max_buffer_size c"
  shows "decode c d = (Inr None, c, d)"
  using decode_wait [OF _ strip_iac_exact] assms by (simp add: open_codec_def clean_None)

lemma decode_eof_unterminated:
  assumes "open_codec c" "IAC \<notin> set d" "LF \<notin> set d" "CR \<notin> set d" "d \<noteq> []"
    and "length d \<le> max_line_length c" "length d \<le> max_buffer_size c"
  shows "decode_eof c d = (Inr (Some (Line (from_utf8_lossy d))), c, [])"
proof -
  have "d ! 0 \<noteq> IAC" "d ! (length d - 1) \<noteq> IAC" "2 \<le> length d \<Longrightarrow> d ! (length d - 2) \<noteq> IAC"
    using assms(2,5) by (metis length_greater_0_conv nth_mem,
      metis diff_less length_greater_0_conv nth_mem zero_less_one,
      metis assms(5) diff_less length_greater_0_conv nth_mem zero_less_numeral)
  then have "d ! 0 \<noteq> IAC" "d ! (length d - 1) \<noteq> IAC" "\<not> (2 \<le> length d \<and> d ! (length d - 2) = IAC)"
    by blast+
  then show ?thesis
    using decode_unterminated [OF assms(1-4,6,7)] assms(1,5)
    by (auto simp: decode_eof_def open_codec_def lossy_decode_with_warning_def Let_def Suc_le_eq)
qed

lemma feed_terminator:
  assumes "open_codec c" "IAC \<notin> set d" "LF \<notin> set d" "CR \<notin> set d" "length d + 2 \<le> max_buffer_size c"
  shows "feed c d [13, 10] = ([Inr (Line (from_utf8_lossy d))], c, [])"
proof -
  let ?b = "d @ [CR, LF]"
  have c: "\<not> in_subnegotiation c" "\<not> discarding c"
    using assms(1) by (simp_all add: open_codec_def)
  have "find_line_terminator ?b = Some (length d)"
    using assms(3,4) by (simp add: find_line_terminator_append)
  then have "decode c ?b = (Inr (Some (Line (from_utf8_lossy d))), c, [])"
    using decode_line [of c ?b c ?b] strip_iac_exact [of c ?b] c assms
    by (simp add: IAC_CR_LF lossy_decode_with_warning_def consume_terminator_def nth_append)
  then show ?thesis
    using drain_end [OF c(1)]
    by (simp add: feed_def telnet.drain_all_unfold [of c "d @ [13, 10]"] CR_def LF_def)
qed

lemma feed_eof_nothing: "open_codec c \<Longrightarrow> feed_eof c [] = ([], c, [])"
proof -
  assume c: "open_codec c"
  then have "decode c [] = (Inr None, c, [])"
    by (simp add: open_codec_def strip_iac_exact decode_wait [of c "[]" c "[]"])
  then have "decode_eof c [] = (Inr None, c, [])"
    using c by (simp add: decode_eof_def open_codec_def)
  then show ?thesis
    by (simp add: feed_eof_def telnet_eof.drain_all_unfold)
qed

text \<open>
  C20: a client that closes the connection after a last line without a line ending is served
  exactly as one that ends the line and then closes: the line reaches the session, and the
  connection and the shared state are left the same.
\<close>

theorem closing_ends_the_last_line:
  assumes "open_codec (ln_codec lk)" and "ln_buffer lk = d" and "d \<noteq> []"
    and "IAC \<notin> set d" and "LF \<notin> set d" and "CR \<notin> set d"
    and "length d \<le> max_line_length (ln_codec lk)" and "length d + 2 \<le> max_buffer_size (ln_codec lk)"
  shows "wire_step cx (Closed_by_peer am) lk =
    fold (wire_step cx) [Chunk am [13, 10], Closed_by_peer am] lk"
proof -
  let ?c = "ln_codec lk"
  have "feed_eof ?c d = ([Inr (Line (from_utf8_lossy d))], ?c, [])"
    using decode_eof_unterminated [of ?c d] feed_eof_nothing [of ?c] assms
    by (simp add: feed_eof_def telnet_eof.drain_all_unfold [of ?c d])
  moreover have "feed ?c d [13, 10] = ([Inr (Line (from_utf8_lossy d))], ?c, [])"
    using feed_terminator [of ?c d] assms by simp
  ultimately show ?thesis
    using assms(1,2) feed_eof_nothing [of ?c]
    by (simp add: wire_step_def client_events_def split: prod.splits)
qed

theorem closing_ends_the_last_line_witness:
  "wire_step example_cx (Closed_by_peer example_am)
     ((sits codec_new (cx_registry example_cx) (Authenticating None) 0 0 example_shared)\<lparr>ln_buffer := [98, 121, 101]\<rparr>) =
   fold (wire_step example_cx) [Chunk example_am [13, 10], Closed_by_peer example_am]
     ((sits codec_new (cx_registry example_cx) (Authenticating None) 0 0 example_shared)\<lparr>ln_buffer := [98, 121, 101]\<rparr>)"
  by (rule closing_ends_the_last_line [of _ "[98, 121, 101]"])
     (simp_all add: sits_def byte_defs codec_new_def MAX_LINE_LENGTH_def MAX_BUFFER_SIZE_def open_codec_def)

section \<open>Memory\<close>

lemma closing_stays: "cn_closing c \<Longrightarrow> \<exists>sh'. fold (conn_step cx) es (c, sh) = (c, sh')"
proof (induction es arbitrary: sh)
  case (Cons e es)
  show ?case
    by (cases e) (use Cons in auto)
qed simp

text \<open>An error of the reader ends the loop, whatever came before it.\<close>

lemma error_closes:
  assumes "Inl e \<in> set items"
  shows "cn_closing (fst (fold (conn_step cx) (client_events am items) s))"
  using assms
proof (induction items arbitrary: s)
  case (Cons i items)
  show ?case
  proof (cases "i = Inl e")
    case True
    have "cn_closing (fst (conn_step cx (Incoming am (Failed_read e)) s))"
      by (cases s; cases e) (simp_all add: close_def)
    then show ?thesis
      using closing_stays [of "fst (conn_step cx (Incoming am (Failed_read e)) s)" cx "client_events am items"
          "snd (conn_step cx (Incoming am (Failed_read e)) s)"] True
      by (auto simp: client_events_def)
  next
    case False
    then show ?thesis
      using Cons by (simp add: client_events_def)
  qed
qed simp

lemma drain_keeps_limits:
  "drain_all decode c buf = (items, c', buf') \<Longrightarrow>
   max_line_length c' = max_line_length c \<and> max_buffer_size c' = max_buffer_size c"
proof (induction "length buf" arbitrary: c buf items rule: less_induct)
  case less
  from less.prems show ?case
    by (cases rule: telnet.drain_all_cases) (use less.hyps decode_limits in fastforce)+
qed

lemma drain_leaves_little:
  "drain_all decode c buf = (items, c', buf') \<Longrightarrow>
   (\<exists>e. Inl e \<in> set items) \<or> length buf' \<le> max_line_length c"
proof (induction "length buf" arbitrary: c buf items rule: less_induct)
  case less
  from less.prems show ?case
  proof (cases rule: telnet.drain_all_cases)
    case idle
    then show ?thesis
      using decode_post_any [of c buf] by (simp add: decode_post_def)
  next
    case (item i s1 b1 rest)
    then show ?thesis
      using less.hyps [OF item(4,3)] decode_limits [OF item(1)] by auto
  qed simp
qed

definition link_ok :: "nat \<Rightarrow> link \<Rightarrow> bool" where
  "link_ok limit lk =
    (max_line_length (ln_codec lk) = limit \<and>
     (\<not> cn_closing (ln_conn lk) \<longrightarrow> length (ln_buffer lk) \<le> limit))"

lemma wire_step_fields:
  assumes "read_step ev (ln_codec lk) (ln_buffer lk) = (es, c', buf')"
  shows "ln_codec (wire_step cx ev lk) = c'" "ln_buffer (wire_step cx ev lk) = buf'"
    "ln_conn (wire_step cx ev lk) = fst (fold (conn_step cx) es (ln_conn lk, ln_shared lk))"
  using assms by (simp_all add: wire_step_def split: prod.splits)

lemma decode_eof_limits:
  "decode_eof c buf = (r, c', buf') \<Longrightarrow> max_line_length c' = max_line_length c"
  using decode_limits [of c buf]
  by (auto simp: decode_eof_def Let_def split: prod.splits sum.splits option.splits if_splits)

lemma drain_eof_limits:
  "drain_all decode_eof c buf = (items, c', buf') \<Longrightarrow> max_line_length c' = max_line_length c"
proof (induction "length buf" arbitrary: c buf items rule: less_induct)
  case less
  from less.prems show ?case
    by (cases rule: telnet_eof.drain_all_cases) (use less.hyps decode_eof_limits in fastforce)+
qed

lemma read_step_limits:
  "read_step ev c buf = (es, c', buf') \<Longrightarrow> max_line_length c' = max_line_length c"
  using drain_keeps_limits [of c] drain_eof_limits [of c]
  by (cases ev) (auto simp: feed_def feed_eof_def apfst_def map_prod_def split: prod.splits)

lemma closing_fold: "cn_closing (fst s) \<Longrightarrow> cn_closing (fst (fold (conn_step cx) es s))"
  using closing_stays [of "fst s" cx es "snd s"] by auto

lemma read_step_bound:
  assumes "read_step ev c buf = (es, c', buf')" "length buf \<le> max_line_length c"
  shows "length buf' \<le> max_line_length c \<or> cn_closing (fst (fold (conn_step cx) es s))"
proof (cases ev)
  case (Chunk am bs)
  then obtain items where "drain_all decode c (buf @ bs) = (items, c', buf')" "es = client_events am items"
    using assms(1) by (auto simp: feed_def apfst_def map_prod_def split: prod.splits)
  then show ?thesis
    using drain_leaves_little error_closes by blast
next
  case (Closed_by_peer am)
  then obtain items where "es = client_events am items @ [Incoming am End_of_stream]"
    using assms(1) by (auto simp: apfst_def map_prod_def split: prod.splits)
  moreover have "cn_closing (fst (conn_step cx (Incoming am End_of_stream) s))" for s
    by (cases s) (simp add: close_def)
  ultimately show ?thesis by simp
next
  case (Read_failed am e)
  have "cn_closing (fst (conn_step cx (Incoming am (Failed_read (CodecIo e))) s))"
    by (cases s) (simp add: close_def)
  then show ?thesis
    using Read_failed assms(1) by auto
next
  case (Shutdown_signal am)
  then show ?thesis using assms by auto
next
  case (Others op)
  then show ?thesis using assms by auto
qed

lemma link_ok_step:
  assumes "link_ok limit lk"
  shows "link_ok limit (wire_step cx ev lk)"
proof -
  obtain es c' buf' where r: "read_step ev (ln_codec lk) (ln_buffer lk) = (es, c', buf')"
    by (cases "read_step ev (ln_codec lk) (ln_buffer lk)")
  have "length buf' \<le> limit \<or> cn_closing (fst (fold (conn_step cx) es (ln_conn lk, ln_shared lk)))"
    using read_step_bound [OF r, of cx "(ln_conn lk, ln_shared lk)"] assms
      closing_fold [of "(ln_conn lk, ln_shared lk)" cx es]
    by (auto simp: link_ok_def)
  then show ?thesis
    using wire_step_fields [OF r, of cx] read_step_limits [OF r] assms by (auto simp: link_ok_def)
qed

interpretation wire: guarded_machine "wire_step cx" "\<lambda>_ _. True" "link_ok limit"
  by unfold_locales (rule link_ok_step)

text \<open>
  C18: the memory a client can make the reader hold. Whatever arrives, in whatever reads, as
  long as the handler is in its loop the reader keeps no more than one line of the allowed
  length between two reads.
\<close>

theorem reader_memory_bounded:
  assumes "open_link cx now1 now2 codec w sh = Some lk"
    and "\<not> cn_closing (ln_conn (fold (wire_step cx) evs lk))"
  shows "length (ln_buffer (fold (wire_step cx) evs lk)) \<le> max_line_length codec"
proof -
  have "link_ok (max_line_length codec) lk"
    using assms(1) by (auto simp: open_link_def link_ok_def split: prod.splits sum.splits if_splits)
  then have "link_ok (max_line_length codec) (fold (wire_step cx) evs lk)"
    by (intro wire.run_keeps_always) simp_all
  then show ?thesis
    using assms(2) by (simp add: link_ok_def)
qed

theorem reader_memory_bounded_witness:
  "\<exists>lk. open_link example_cx 100 100 codec_new (writer_new []) example_shared = Some lk \<and>
    length (ln_buffer (fold (wire_step example_cx) [Chunk example_am [97, 98]] lk)) \<le> max_line_length codec_new"
proof -
  let ?open = "open_link example_cx 100 100 codec_new (writer_new []) example_shared"
  have "case ?open of None \<Rightarrow> False
    | Some lk \<Rightarrow> \<not> cn_closing (ln_conn (fold (wire_step example_cx) [Chunk example_am [97, 98]] lk))"
    by code_simp
  then obtain lk where lk: "?open = Some lk"
    "\<not> cn_closing (ln_conn (fold (wire_step example_cx) [Chunk example_am [97, 98]] lk))"
    by (cases ?open) simp_all
  then show ?thesis
    using reader_memory_bounded [OF lk] by blast
qed

section \<open>Answers\<close>

lemma message_texts: "EMPTY_USERNAME_MSG \<noteq> []" "EMPTY_PASSWORD_MSG \<noteq> []" "PASSWORD_PROMPT \<noteq> []"
  "GOODBYE_MSG \<noteq> []" "WORLD_SELECTION_NON_NUMERIC_MSG \<noteq> []" "LINE_TOO_LONG_MSG \<noteq> []"
  "crlf \<noteq> []"
  by (simp_all add: const_defs crlf_def)

lemma session_speaks:
  "handle_input s l = Stay out \<Longrightarrow> out \<noteq> []"
  "handle_input s l = Advance next out \<Longrightarrow> out \<noteq> []"
  "handle_input s l = Disconnect out \<Longrightarrow> out \<noteq> []"
  by (auto simp: handle_input_def handle_username_input_def handle_password_input_def
      handle_world_selection_input_def Let_def message_texts template_fills
      simp del: lit_simps split: session_state.splits option.splits if_splits sum.splits)

definition answered :: "conn \<Rightarrow> conn \<Rightarrow> bool" where
  "answered c c' = (\<exists>out. out \<noteq> [] \<and> w_sent (cn_writer c') = w_sent (cn_writer c) @ out)"

lemma encode_not_empty: "s \<noteq> [] \<Longrightarrow> encode s \<noteq> []"
  by (cases s) simp_all

lemma answered_send:
  "w_faults (cn_writer c) = [] \<Longrightarrow> data \<noteq> [] \<Longrightarrow> (\<And>d. cn_writer (k d) = cn_writer d) \<Longrightarrow>
   answered c (send_or_close data k c)"
  by (auto simp: send_or_close_def send_no_faults answered_def)

lemma answered_counted [simp]: "answered (c\<lparr>cn_line_count := n\<rparr>) c' = answered c c'"
  by (simp add: answered_def)

lemma answered_pending:
  assumes "w_faults (cn_writer c) = []"
  shows "answered c (fst (on_auth_pending cx am u p (c, sh)))"
proof -
  have "IAC_WONT_ECHO \<noteq> []"
    by (simp add: byte_defs)
  then show ?thesis
    using assms
    by (auto simp: on_auth_pending_def send_no_faults answered_def on_auth_result_def on_completion_def
        complete_auth_def send_or_close_def Let_def close_def enter_def simp del: lit_simps
        split: sum.splits option.splits)
qed

lemma answered_disconnect:
  assumes "w_faults (cn_writer c) = []" "out \<noteq> []"
  shows "answered c (on_disconnect out c)"
  using assms encode_not_empty [of out]
  by (auto simp: on_disconnect_def send_no_faults answered_def Let_def close_def)

lemma answered_line:
  assumes "w_faults (cn_writer c) = []"
  shows "answered c (fst (on_line cx am l (c, sh)))"
proof (cases "handle_input (cn_session c) l")
  case (Stay out)
  then show ?thesis
    using assms answered_send [of "c\<lparr>cn_line_count := cn_line_count c + 1\<rparr>" "encode out" "\<lambda>c. c"]
      encode_not_empty session_speaks(1)
    by (auto simp: on_line_def on_stay_def)
next
  case (Advance nxt out)
  then show ?thesis
    using assms answered_send [of "c\<lparr>cn_line_count := cn_line_count c + 1\<rparr>"
        "echo_prefix nxt @ encode out" "enter nxt"] encode_not_empty session_speaks(2)
    by (auto simp: on_line_def on_advance_def)
next
  case (AuthPending u p)
  then show ?thesis
    using assms answered_pending [of "c\<lparr>cn_line_count := cn_line_count c + 1\<rparr>"]
    by (simp add: on_line_def)
next
  case (Disconnect out)
  then show ?thesis
    using assms answered_disconnect [of "c\<lparr>cn_line_count := cn_line_count c + 1\<rparr>" out] session_speaks(3)
    by (simp add: on_line_def)
qed

text \<open>
  C19: no line goes without an answer. As long as no write fails, whatever line a client sends, in
  whatever state its session is, the empty line and the line that is too long included,
  something is sent back before the next is read.
\<close>

theorem every_line_answered:
  assumes "\<not> cn_closing c" and "w_faults (cn_writer c) = []"
  shows "answered c (fst (conn_step cx (Incoming am (Received item)) (c, sh)))"
proof (cases item)
  case (Line l)
  then show ?thesis
    using assms answered_line by simp
next
  case LineTooLong
  then show ?thesis
    using assms answered_send [of c "encode LINE_TOO_LONG_MSG" "\<lambda>c. c"] encode_not_empty message_texts
    by simp
qed

definition new_conn :: conn where
  "new_conn = conn_new (cx_registry example_cx) (writer_new [])"

theorem every_line_answered_witness:
  "answered new_conn (fst (conn_step example_cx (Incoming example_am (Received (Line []))) (new_conn, example_shared)))"
  by (rule every_line_answered) (simp_all add: new_conn_def conn_new_def writer_new_def)

end
