(* ===== verification/ServerExec.thy ===== *)
theory ServerExec
  imports ServerProps
begin

text \<open>
  The step relation of the server as a function on labels: the state a label leads to, or
  nothing when it is not enabled. With distinct task numbers, which every reachable state has, the
  function and the relation agree, so a run can be computed and what a label does is determined.
\<close>

fun sv_exec :: "label \<Rightarrow> ('p, 'h) server \<Rightarrow> ('p, 'h) server option" where
  "sv_exec (Accept ip faults) s =
    (if sv_accepting s \<and> \<not> sv_cancelled s then
       if 0 < sv_permits s then
         Some (s\<lparr>sv_permits := sv_permits s - 1,
           sv_tasks := sv_tasks s @ [(sv_next s, Starting ip (writer_new faults))],
           sv_next := sv_next s + 1\<rparr>)
       else Some (s\<lparr>sv_refused := sv_refused s @ [reject (writer_new faults)]\<rparr>)
     else None)"
| "sv_exec Accept_failed s = (if sv_accepting s \<and> \<not> sv_cancelled s then Some s else None)"
| "sv_exec (Begin i now1 now2) s =
    (case map_of (sv_tasks s) i of
       Some (Starting ip w) \<Rightarrow> Some (begin_task i now1 now2 ip w s)
     | _ \<Rightarrow> None)"
| "sv_exec (Serve i am inc) s =
    (case map_of (sv_tasks s) i of
       Some (Serving ip c) \<Rightarrow>
         if \<not> cn_closing c \<and> (inc = Cancelled \<longleftrightarrow> sv_cancelled s) then Some (serve_task i am inc ip c s)
         else None
     | _ \<Rightarrow> None)"
| "sv_exec (Finish i) s =
    (case map_of (sv_tasks s) i of
       Some (Serving ip c) \<Rightarrow>
         if cn_closing c then Some (end_task i (writer_shutdown (cn_writer c)) s) else None
     | _ \<Rightarrow> None)"
| "sv_exec Cancel s = Some (s\<lparr>sv_cancelled := True\<rparr>)"
| "sv_exec Leave_loop s =
    (if sv_accepting s \<and> sv_cancelled s then Some (s\<lparr>sv_accepting := False\<rparr>) else None)"
| "sv_exec Drained s =
    (if \<not> sv_accepting s \<and> sv_tasks s = [] then Some (s\<lparr>sv_stopped := True\<rparr>) else None)"
| "sv_exec Drain_timeout s =
    (if \<not> sv_accepting s \<and> sv_tasks s \<noteq> [] then
       Some (s\<lparr>sv_tasks := [], sv_permits := sv_permits s + length (sv_tasks s), sv_stopped := True\<rparr>)
     else None)"

fun sv_exec_all :: "label list \<Rightarrow> ('p, 'h) server \<Rightarrow> ('p, 'h) server option" where
  "sv_exec_all [] s = Some s"
| "sv_exec_all (l # ls) s = Option.bind (sv_exec l s) (sv_exec_all ls)"

lemma sv_exec_sound:
  assumes "sv_exec l s = Some s'"
  shows "sv_step l s s'"
proof (cases l)
  case (Accept ip faults)
  then show ?thesis
    using assms sv_step.accept [of s ip faults] sv_step.refuse [of s ip faults]
    by (auto split: if_splits)
next
  case (Begin i now1 now2)
  with assms obtain ip w where "map_of (sv_tasks s) i = Some (Starting ip w)"
    "s' = begin_task i now1 now2 ip w s"
    by (auto split: option.splits task.splits)
  then show ?thesis
    unfolding Begin by (auto intro: sv_step.begin_conn dest: map_of_SomeD)
next
  case (Serve i am inc)
  with assms obtain ip c where "map_of (sv_tasks s) i = Some (Serving ip c)" "\<not> cn_closing c"
    "inc = Cancelled \<longleftrightarrow> sv_cancelled s" "s' = serve_task i am inc ip c s"
    by (auto split: option.splits task.splits if_splits)
  then show ?thesis
    unfolding Serve by (auto intro: sv_step.serve dest: map_of_SomeD)
next
  case (Finish i)
  with assms obtain ip c where "map_of (sv_tasks s) i = Some (Serving ip c)" "cn_closing c"
    "s' = end_task i (writer_shutdown (cn_writer c)) s"
    by (auto split: option.splits task.splits if_splits)
  then show ?thesis
    unfolding Finish by (auto intro: sv_step.finish dest: map_of_SomeD)
qed (use assms in \<open>auto intro: sv_step.intros split: if_splits\<close>)

lemma sv_exec_complete:
  assumes "sv_step l s s'" "distinct (map fst (sv_tasks s))"
  shows "sv_exec l s = Some s'"
  using assms by (induction rule: sv_step.induct) (auto simp: map_of_eq_Some_iff)

lemma sv_exec_iff:
  "distinct (map fst (sv_tasks s)) \<Longrightarrow> sv_exec l s = Some s' \<longleftrightarrow> sv_step l s s'"
  by (auto intro: sv_exec_sound sv_exec_complete)

lemma sv_exec_all_reachable:
  "sv_exec_all ls s = Some s' \<Longrightarrow> reachable s0 s \<Longrightarrow> reachable s0 s'"
  by (induction ls arbitrary: s) (auto simp: bind_eq_Some_conv intro: reachable.step sv_exec_sound)

lemma sv_exec_all_append:
  "sv_exec_all (xs @ ys) s = Option.bind (sv_exec_all xs s) (sv_exec_all ys)"
proof (induction xs arbitrary: s)
  case (Cons l ls)
  then show ?case
    by (cases "sv_exec l s") simp_all
qed simp

lemma reachable_exec:
  assumes "reachable s0 s" "server_ok n s0"
  shows "\<exists>ls. sv_exec_all ls s0 = Some s"
  using assms
proof (induction rule: reachable.induct)
  case start
  show ?case
    by (rule exI [of _ "[]"]) simp
next
  case (step s l s')
  then obtain ls where "sv_exec_all ls s0 = Some s"
    by blast
  moreover have "distinct (map fst (sv_tasks s))"
    using reachable_ok [OF step.hyps(1) step.prems] by (simp add: server_ok_def)
  ultimately have "sv_exec_all (ls @ [l]) s0 = Some s'"
    using sv_exec_complete [OF step.hyps(2)] by (simp add: sv_exec_all_append)
  then show ?case by blast
qed

text \<open>
  The runs of the server are determined by their labels. In every state the server can
  reach, what a step of the relation leads to is computed by the function, and nothing else is
  possible under that label; every reachable state is computed from the start by some sequence
  of labels, and every state so computed is reachable.
\<close>

theorem runs_determined:
  assumes "services_ok (wo_services wo)" and "rows_ok (wo_services wo) (wo_rows wo)"
    and "server_start wo cfg = Inr s0"
  shows "(\<exists>ls. sv_exec_all ls s0 = Some s) = reachable s0 s \<and>
    (reachable s0 s \<longrightarrow> sv_step l s s' = (sv_exec l s = Some s'))"
proof -
  note ok = server_start_ok [OF assms]
  have "distinct (map fst (sv_tasks s))" if "reachable s0 s"
    using reachable_ok [OF that ok] by (simp add: server_ok_def)
  then show ?thesis
    using sv_exec_iff [of s l s'] reachable_exec [OF _ ok, of s] sv_exec_all_reachable [OF _ reachable.start]
    by blast
qed

theorem runs_determined_witness:
  "\<exists>s0. server_start example_wo app_config_default = Inr s0 \<and>
    ((\<exists>ls. sv_exec_all ls s0 = Some s0) = reachable s0 s0)"
  using example_start runs_determined [OF example_wo_ok] by metis

end
