(* ===== verification/BasicTests.thy ===== *)
theory BasicTests
  imports Config Connection
begin

text \<open>
  The unit tests of the small modules: \<open>constants.rs\<close>, \<open>error.rs\<close>, \<open>id.rs\<close>,
  \<open>account.rs\<close>, \<open>params.rs\<close>, \<open>metadata.rs\<close>, \<open>output.rs\<close> and
  \<open>config.rs\<close>.
\<close>

section \<open>Constants\<close>

definition version_is_non_empty :: bool where
  "version_is_non_empty =
    (VERSION \<noteq> [])"

definition banner_contains_version :: bool where
  "banner_contains_version =
    (str_contains VERSION BANNER)"

definition max_line_length_is_4096 :: bool where
  "max_line_length_is_4096 =
    (MAX_LINE_LENGTH = 4096)"

definition max_buffer_size_is_10mb :: bool where
  "max_buffer_size_is_10mb =
    (MAX_BUFFER_SIZE = 10 * 1024 * 1024)"

definition username_prompt_is_non_empty :: bool where
  "username_prompt_is_non_empty =
    (USERNAME_PROMPT \<noteq> [])"

definition password_prompt_is_non_empty :: bool where
  "password_prompt_is_non_empty =
    (PASSWORD_PROMPT \<noteq> [])"

definition templates_contain_placeholders :: bool where
  "templates_contain_placeholders =
    (str_contains (lit ''{username}'') WELCOME_TEMPLATE \<and>
     str_contains (lit ''{world}'') WORLD_SELECTED_TEMPLATE \<and>
     str_contains (lit ''{n}'') WORLD_SELECT_PROMPT_TEMPLATE \<and>
     str_contains (lit ''{n}'') WORLD_SELECTION_OUT_OF_RANGE_MSG)"

definition iac_echo_sequences_are_3_bytes :: bool where
  "iac_echo_sequences_are_3_bytes =
    (length IAC_WILL_ECHO = 3 \<and> length IAC_WONT_ECHO = 3)"

definition auth_messages_non_empty :: bool where
  "auth_messages_non_empty =
    (AUTH_FAILED_MSG \<noteq> [] \<and> AUTH_MAX_RETRIES_MSG \<noteq> [] \<and> AUTH_RATE_LIMITED_MSG \<noteq> [])"

definition banner_contains_project_name :: bool where
  "banner_contains_project_name =
    (str_contains (lit ''Liaozhai MUX'') BANNER \<and> str_contains (lit ''Multi-User eXegesis'') BANNER)"

section \<open>Errors\<close>

definition error_display_formatting :: bool where
  "error_display_formatting =
    (error_display (Config (lit ''missing field'')) = lit ''configuration error: missing field'')"

definition codec_error_display_test :: bool where
  "codec_error_display_test =
    (error_display (Codec (lit ''line too long'')) = lit ''codec error: line too long'')"

definition io_error_converts_via_from :: bool where
  "io_error_converts_via_from =
    (case error_from_io (lit ''gone'') of
       Io _ \<Rightarrow> str_contains (lit ''gone'') (error_display (error_from_io (lit ''gone'')))
     | _ \<Rightarrow> False)"

section \<open>Accounts and parameters\<close>

definition account_new_getters :: bool where
  "account_new_getters =
    (case account_new 7 1000 (lit ''alice'') of
       Some a \<Rightarrow> acc_username a = lit ''alice'' \<and> acc_id a = acc_id a \<and> 0 < acc_created_at a \<and>
         acc_last_login_at a = None
     | None \<Rightarrow> False)"

definition account_from_row_getters :: bool where
  "account_from_row_getters =
    (let i = account_id_new 7; a = account_from_row i (lit ''bob'') 1000 (Some 2000)
     in acc_id a = i \<and> acc_username a = lit ''bob'' \<and> acc_created_at a = 1000 \<and> acc_last_login_at a = Some 2000)"

definition default_params_match_owasp :: bool where
  "default_params_match_owasp =
    (m_cost argon2_params_default = 19456 \<and> t_cost argon2_params_default = 2 \<and>
     p_cost argon2_params_default = 1)"

section \<open>Worlds\<close>

definition new_and_getters :: bool where
  "new_and_getters =
    (let meta = world_metadata_new 1 (lit ''studio-dusk'') (lit ''The Studio at Dusk'') (lit ''A small interior, warmly lit.'')
     in wm_slug meta = lit ''studio-dusk'' \<and> wm_name meta = lit ''The Studio at Dusk'' \<and>
        wm_short_description meta = lit ''A small interior, warmly lit.'' \<and> wm_id meta = wm_id meta)"

section \<open>The writer\<close>

definition write_line_appends_crlf :: bool where
  "write_line_appends_crlf =
    (case write_line (lit ''hello'') (writer_new []) of
       (r, w) \<Rightarrow> r = Inr () \<and> w_sent (writer_shutdown w) = encode (lit ''hello'') @ [13, 10])"

definition write_raw_sends_exact_bytes :: bool where
  "write_raw_sends_exact_bytes =
    (case write_raw (encode (lit ''raw'') @ [10]) (writer_new []) of
       (r, w) \<Rightarrow> r = Inr () \<and> w_sent (writer_shutdown w) = encode (lit ''raw'') @ [10])"

section \<open>Configuration\<close>

definition default_config_values :: bool where
  "default_config_values =
    (sc_port (cfg_server app_config_default) = 4444 \<and>
     sc_bind_address (cfg_server app_config_default) = lit ''127.0.0.1'' \<and>
     sc_max_connections (cfg_server app_config_default) = 100 \<and>
     cfg_default_filter app_config_default = lit ''info'')"

text \<open>No file is named, so neither the reading nor the decoding of one is used.\<close>

definition load_defaults :: "overrides \<Rightarrow> anyhow + app_config" where
  "load_defaults ov = load (\<lambda>_. Inl []) (\<lambda>_. Inl []) None ov"

definition load_without_file_returns_defaults :: bool where
  "load_without_file_returns_defaults =
    (case load_defaults overrides_default of Inr cfg \<Rightarrow> sc_port (cfg_server cfg) = DEFAULT_PORT | Inl _ \<Rightarrow> False)"

definition cli_port_override :: bool where
  "cli_port_override =
    (case load_defaults (overrides_default\<lparr>ov_port := Some 5555\<rparr>) of Inr cfg \<Rightarrow> sc_port (cfg_server cfg) = 5555 | Inl _ \<Rightarrow> False)"

definition cli_bind_override :: bool where
  "cli_bind_override =
    (case load_defaults (overrides_default\<lparr>ov_bind_address := Some (lit ''0.0.0.0'')\<rparr>) of Inr cfg \<Rightarrow> sc_bind_address (cfg_server cfg) = lit ''0.0.0.0'' | Inl _ \<Rightarrow> False)"

text \<open>The keys that decoding the text of the test gives.\<close>

definition test_file_keys :: file_keys where
  "test_file_keys =
    \<lparr>fk_server = Some \<lparr>sk_bind_address = Some (lit ''10.0.0.1''), sk_port = Some 9999,
       sk_max_connections = None, sk_shutdown_drain_secs = None\<rparr>,
     fk_auth = None, fk_registry_path = None, fk_default_filter = Some (Some (lit ''debug''))\<rparr>"

definition toml_deserialization :: bool where
  "toml_deserialization =
    (let cfg = app_config_of test_file_keys
     in sc_port (cfg_server cfg) = 9999 \<and> sc_bind_address (cfg_server cfg) = lit ''10.0.0.1'' \<and>
        cfg_default_filter cfg = lit ''debug'' \<and> ac_db_path (cfg_auth cfg) = lit ''./data/accounts.db'')"

section \<open>All of them\<close>

lemma basic_tests_pass_1:
  "version_is_non_empty"
  "banner_contains_version"
  "max_line_length_is_4096"
  "max_buffer_size_is_10mb"
  "username_prompt_is_non_empty"
  "password_prompt_is_non_empty"
  by code_simp+

lemma basic_tests_pass_2:
  "templates_contain_placeholders"
  "iac_echo_sequences_are_3_bytes"
  "auth_messages_non_empty"
  "banner_contains_project_name"
  "error_display_formatting"
  "codec_error_display_test"
  by code_simp+

lemma basic_tests_pass_3:
  "io_error_converts_via_from"
  "account_new_getters"
  "account_from_row_getters"
  "default_params_match_owasp"
  "new_and_getters"
  "write_line_appends_crlf"
  by code_simp+

lemma basic_tests_pass_4:
  "write_raw_sends_exact_bytes"
  "default_config_values"
  "load_without_file_returns_defaults"
  "cli_port_override"
  "cli_bind_override"
  "toml_deserialization"
  by code_simp+

lemmas basic_tests_pass =
  basic_tests_pass_1 basic_tests_pass_2 basic_tests_pass_3 basic_tests_pass_4

section \<open>Identifiers\<close>

definition display_matches_uuid_format :: "(uuid \<Rightarrow> ustr) \<Rightarrow> uuid \<Rightarrow> bool" where
  "display_matches_uuid_format text_of fresh =
    (let i = account_id_new fresh
     in account_id_display text_of i = text_of (account_id_uuid i))"

definition from_uuid_preserves_value :: "uuid \<Rightarrow> bool" where
  "from_uuid_preserves_value raw = (connection_id_uuid (connection_id_from_uuid raw) = raw)"

lemma id_tests_pass: "display_matches_uuid_format text_of fresh" "from_uuid_preserves_value raw"
  by (simp_all add: display_matches_uuid_format_def from_uuid_preserves_value_def Let_def
      account_id_display_def connection_id_from_uuid_def)

end
