(* ===== verification/CodecTests.thy ===== *)
theory CodecTests
  imports CodecStream
begin

text \<open>
  The unit tests of \<open>crates/liaozhai-net/src/codec.rs\<close>, translated one by one and run
  on the model: each test is a truth value, and the kernel evaluates it. They tie the model of the
  codec to the behaviour the program's authors observed. A test that decodes several times is a
  script: what arrives before each call, and what the call must return.
\<close>

section \<open>Scripts\<close>

definition decode_one :: "codec \<Rightarrow> bytes \<Rightarrow> codec_error + codec_item option" where
  "decode_one c data = fst (decode c data)"

definition decode_line_of :: "codec \<Rightarrow> bytes \<Rightarrow> ustr option" where
  "decode_line_of c data =
    (case decode_one c data of Inr (Some (Line s)) \<Rightarrow> Some s | _ \<Rightarrow> None)"

fun script :: "codec \<Rightarrow> bytes \<Rightarrow> (bytes \<times> (codec_error + codec_item option)) list \<Rightarrow> bool" where
  "script c buf [] = True"
| "script c buf ((arrived, expected) # rest) =
    (case decode c (buf @ arrived) of
       (r, c', buf') \<Rightarrow> r = expected \<and> script c' buf' rest)"

definition eof_gives :: "codec \<Rightarrow> bytes \<Rightarrow> codec_error + codec_item option \<Rightarrow> bool" where
  "eof_gives c buf expected = (fst (decode_eof c buf) = expected)"

section \<open>Line splitting\<close>

definition line_ending_crlf :: bool where
  "line_ending_crlf =
    (decode_line_of codec_new (encode (lit ''hello'') @ [13, 10]) = Some (lit ''hello''))"

definition line_ending_lf :: bool where
  "line_ending_lf =
    (decode_line_of codec_new (encode (lit ''hello'') @ [10]) = Some (lit ''hello''))"

definition line_ending_lone_cr :: bool where
  "line_ending_lone_cr =
    (decode_line_of codec_new (encode (lit ''hello'') @ [13]) = Some (lit ''hello''))"

definition empty_line_crlf :: bool where
  "empty_line_crlf =
    (decode_line_of codec_new ([13, 10]) = Some ([]))"

definition empty_line_lf :: bool where
  "empty_line_lf =
    (decode_line_of codec_new ([10]) = Some ([]))"

definition multiple_lines_in_one_buffer :: bool where
  "multiple_lines_in_one_buffer =
    (script codec_new [] [(encode (lit ''one'') @ [13, 10] @ encode (lit ''two'') @ [13, 10], Inr (Some (Line (lit ''one'')))),
      ([], Inr (Some (Line (lit ''two''))))])"

definition partial_line_waits :: bool where
  "partial_line_waits =
    (script codec_new [] [(encode (lit ''hel''), Inr None),
      (encode (lit ''lo'') @ [13, 10], Inr (Some (Line (lit ''hello''))))])"

section \<open>Stripping of commands\<close>

definition iac_iac_emits_literal_0xff :: bool where
  "iac_iac_emits_literal_0xff =
    (case decode_one codec_new [255, 255, 10] of
       Inr (Some (Line s)) \<Rightarrow> 65533 \<in> set s | _ \<Rightarrow> False)"

definition iac_will_discarded :: bool where
  "iac_will_discarded =
    (decode_line_of codec_new ([255, 251, 1] @ encode (lit ''hello'') @ [13, 10]) = Some (lit ''hello''))"

definition iac_wont_discarded :: bool where
  "iac_wont_discarded =
    (decode_line_of codec_new ([255, 252, 1] @ encode (lit ''hello'') @ [13, 10]) = Some (lit ''hello''))"

definition iac_do_discarded :: bool where
  "iac_do_discarded =
    (decode_line_of codec_new ([255, 253, 1] @ encode (lit ''hello'') @ [13, 10]) = Some (lit ''hello''))"

definition iac_dont_discarded :: bool where
  "iac_dont_discarded =
    (decode_line_of codec_new ([255, 254, 1] @ encode (lit ''hello'') @ [13, 10]) = Some (lit ''hello''))"

definition iac_two_byte_command_discarded :: bool where
  "iac_two_byte_command_discarded =
    (decode_line_of codec_new ([255, 244] @ encode (lit ''hello'') @ [13, 10]) = Some (lit ''hello''))"

definition iac_subnegotiation_discarded :: bool where
  "iac_subnegotiation_discarded =
    (decode_line_of codec_new ([255, 250, 31, 0] @ encode (lit ''P'') @ [0] @ encode (lit ''('') @ [255, 240] @ encode (lit ''hello'') @ [13, 10]) = Some (lit ''hello''))"

definition iac_subnegotiation_across_calls :: bool where
  "iac_subnegotiation_across_calls =
    (script codec_new [] [([255, 250, 31, 0], Inr None),
      (encode (lit ''P'') @ [0] @ encode (lit ''('') @ [255, 240] @ encode (lit ''hello'') @ [13, 10], Inr (Some (Line (lit ''hello''))))])"

definition iac_at_end_of_buffer_waits :: bool where
  "iac_at_end_of_buffer_waits =
    (script codec_new [] [(encode (lit ''hello'') @ [255], Inr None),
      ([251, 1, 13, 10], Inr (Some (Line (lit ''hello''))))])"

definition iac_incomplete_3byte_at_end :: bool where
  "iac_incomplete_3byte_at_end =
    (script codec_new [] [([255, 251], Inr None),
      ([1] @ encode (lit ''hello'') @ [13, 10], Inr (Some (Line (lit ''hello''))))])"

definition iac_iac_inside_subnegotiation :: bool where
  "iac_iac_inside_subnegotiation =
    (decode_line_of codec_new ([255, 250, 0, 255, 255, 255, 240] @ encode (lit ''hi'') @ [13, 10]) = Some (lit ''hi''))"

definition multiple_iac_sequences_in_one_line :: bool where
  "multiple_iac_sequences_in_one_line =
    (decode_line_of codec_new ([255, 251, 1] @ encode (lit ''hel'') @ [255, 253, 3] @ encode (lit ''lo'') @ [13, 10]) = Some (lit ''hello''))"

section \<open>Overflow\<close>

definition line_too_long_triggers_discard_then_recovery :: bool where
  "line_too_long_triggers_discard_then_recovery =
    (case decode (with_limits 10 1024) (replicate 16 97) of
       (r, c, buf) \<Rightarrow> r = Inr (Some LineTooLong) \<and> buf = [] \<and>
         script c buf [(encode (lit ''more_garbage'') @ [13, 10], Inr None), (encode (lit ''ok'') @ [13, 10], Inr (Some (Line (lit ''ok''))))])"

definition buffer_overflow_disconnects :: bool where
  "buffer_overflow_disconnects =
    (decode_one (with_limits 4096 100) (replicate 101 120) = Inl (BufferOverflow 100))"

section \<open>Text\<close>

definition valid_utf8_passes_through :: bool where
  "valid_utf8_passes_through =
    (decode_line_of codec_new (encode (lit ''hello world'') @ [13, 10]) = Some (lit ''hello world''))"

definition invalid_utf8_replaced :: bool where
  "invalid_utf8_replaced =
    (case decode_line_of codec_new ([128, 129] @ encode (lit ''hello'') @ [13, 10]) of
       Some s \<Rightarrow> 65533 \<in> set s \<and> str_contains (lit ''hello'') s | None \<Rightarrow> False)"

section \<open>Edge cases\<close>

definition empty_buffer_returns_none :: bool where
  "empty_buffer_returns_none =
    (decode_one codec_new [] = Inr None)"

definition decode_eof_with_trailing_data :: bool where
  "decode_eof_with_trailing_data =
    (eof_gives codec_new (encode (lit ''hello'')) (Inr (Some (Line (lit ''hello'')))))"

definition decode_eof_with_empty_buffer :: bool where
  "decode_eof_with_empty_buffer =
    (eof_gives codec_new [] (Inr None))"

definition decode_eof_while_discarding :: bool where
  "decode_eof_while_discarding =
    (case decode (with_limits 10 1024) (replicate 16 97) of
       (_, c, buf) \<Rightarrow> eof_gives c (buf @ encode (lit ''trailing'')) (Inr None))"

definition decode_eof_with_incomplete_iac :: bool where
  "decode_eof_with_incomplete_iac =
    (eof_gives codec_new [255] (Inr None))"

definition decode_eof_strips_trailing_lone_iac :: bool where
  "decode_eof_strips_trailing_lone_iac =
    (eof_gives codec_new (encode (lit ''hello'') @ [255]) (Inr (Some (Line (lit ''hello'')))))"

definition decode_eof_strips_trailing_iac_will :: bool where
  "decode_eof_strips_trailing_iac_will =
    (eof_gives codec_new (encode (lit ''hello'') @ [255, 251]) (Inr (Some (Line (lit ''hello'')))))"

definition byte_at_a_time_feeding :: bool where
  "byte_at_a_time_feeding =
    (script codec_new []
      (map (\<lambda>b. ([b], Inr None)) (encode (lit ''hello'')) @ [([10], Inr (Some (Line (lit ''hello''))))]))"

section \<open>All of them\<close>

lemma codec_tests_pass_1:
  "line_ending_crlf"
  "line_ending_lf"
  "line_ending_lone_cr"
  "empty_line_crlf"
  "empty_line_lf"
  "multiple_lines_in_one_buffer"
  by code_simp+

lemma codec_tests_pass_2:
  "partial_line_waits"
  "iac_iac_emits_literal_0xff"
  "iac_will_discarded"
  "iac_wont_discarded"
  "iac_do_discarded"
  "iac_dont_discarded"
  by code_simp+

lemma codec_tests_pass_3:
  "iac_two_byte_command_discarded"
  "iac_subnegotiation_discarded"
  "iac_subnegotiation_across_calls"
  "iac_at_end_of_buffer_waits"
  "iac_incomplete_3byte_at_end"
  "iac_iac_inside_subnegotiation"
  by code_simp+

lemma codec_tests_pass_4:
  "multiple_iac_sequences_in_one_line"
  "line_too_long_triggers_discard_then_recovery"
  "buffer_overflow_disconnects"
  "valid_utf8_passes_through"
  "invalid_utf8_replaced"
  "empty_buffer_returns_none"
  by code_simp+

lemma codec_tests_pass_5:
  "decode_eof_with_trailing_data"
  "decode_eof_with_empty_buffer"
  "decode_eof_while_discarding"
  "decode_eof_with_incomplete_iac"
  "decode_eof_strips_trailing_lone_iac"
  "decode_eof_strips_trailing_iac_will"
  by code_simp+

lemma codec_tests_pass_6:
  "byte_at_a_time_feeding"
  by code_simp+

lemmas codec_tests_pass =
  codec_tests_pass_1 codec_tests_pass_2 codec_tests_pass_3 codec_tests_pass_4 codec_tests_pass_5 codec_tests_pass_6

end
