(* ===== verification/SessionTests.thy ===== *)
theory SessionTests
  imports Session
begin

text \<open>
  The unit tests of \<open>crates/liaozhai-net/src/session.rs\<close>, translated one by one and
  evaluated on the model.
\<close>

section \<open>Fixtures\<close>

definition test_registry :: world_registry where
  "test_registry = registry_new
    [world_metadata_new 1 (lit ''studio-dusk'') (lit ''The Studio at Dusk'')
       (lit ''A small interior, warmly lit.''),
     world_metadata_new 2 (lit ''mountain-trail'') (lit ''The Mountain Trail'')
       (lit ''A path winding into mist.''),
     world_metadata_new 3 (lit ''library-echoes'') (lit ''The Library of Echoes'')
       (lit ''A reading room of recursive proportions.'')]"

text \<open>The account of \<open>Account::new\<close> at some time after the epoch.\<close>

definition alice :: account where
  "alice = (case account_new 7 1000 (lit ''alice'') of
     Some a \<Rightarrow> a | None \<Rightarrow> account_from_row (AccountId 7) [] 0 None)"

definition asked_password :: session where
  "asked_password = apply_state (Authenticating (Some (lit ''alice''))) (session_new test_registry)"

definition choosing_world :: session where
  "choosing_world = apply_state (WorldSelection alice) (session_new test_registry)"

definition stays_with :: "transition \<Rightarrow> ustr list \<Rightarrow> bool" where
  "stays_with t parts =
    (case t of Stay output \<Rightarrow> list_all (\<lambda>p. str_contains p output) parts | _ \<Rightarrow> False)"

definition starts_with_and_contains :: "ustr \<Rightarrow> ustr list \<Rightarrow> ustr \<Rightarrow> bool" where
  "starts_with_and_contains start parts s =
    (str_starts_with start s \<and> list_all (\<lambda>p. str_contains p s) parts)"

definition disconnects_with :: "transition \<Rightarrow> ustr list \<Rightarrow> bool" where
  "disconnects_with t parts =
    (case t of Disconnect goodbye \<Rightarrow> list_all (\<lambda>p. str_contains p goodbye) parts | _ \<Rightarrow> False)"

section \<open>Terminators\<close>

definition session_terminator_quit :: bool where
  "session_terminator_quit =
    (is_session_terminator (lit ''quit''))"

definition session_terminator_exit :: bool where
  "session_terminator_exit =
    (is_session_terminator (lit ''exit''))"

definition session_terminator_bye :: bool where
  "session_terminator_bye =
    (is_session_terminator (lit ''bye''))"

definition session_terminator_disconnect :: bool where
  "session_terminator_disconnect =
    (is_session_terminator (lit ''disconnect''))"

definition session_terminator_whitespace :: bool where
  "session_terminator_whitespace =
    (is_session_terminator (lit ''  quit  ''))"

definition session_terminator_case_insensitive :: bool where
  "session_terminator_case_insensitive =
    (is_session_terminator (lit ''QUIT'') \<and> is_session_terminator (lit ''Exit'') \<and>
     is_session_terminator (lit ''BYE''))"

definition session_terminator_rejects_other :: bool where
  "session_terminator_rejects_other =
    (\<not> is_session_terminator (lit ''hello'') \<and> \<not> is_session_terminator [] \<and>
     \<not> is_session_terminator (lit ''quitting''))"

section \<open>Username\<close>

definition username_accepts_non_empty :: bool where
  "username_accepts_non_empty =
    (case handle_input (session_new test_registry) (lit ''alice'') of
       Advance next output \<Rightarrow>
         next = Authenticating (Some (lit ''alice'')) \<and> str_contains (lit ''Password'') output
     | _ \<Rightarrow> False)"

definition username_rejects_empty :: bool where
  "username_rejects_empty =
    (stays_with (handle_input (session_new test_registry) ([]))
      [lit ''cannot be empty'', lit ''Username: ''])"

definition username_rejects_whitespace_only :: bool where
  "username_rejects_whitespace_only =
    (stays_with (handle_input (session_new test_registry) (lit ''   ''))
      [lit ''cannot be empty''])"

definition username_quit_disconnects :: bool where
  "username_quit_disconnects =
    (disconnects_with (handle_input (session_new test_registry) (lit ''quit''))
      [])"

definition username_exit_disconnects :: bool where
  "username_exit_disconnects =
    (disconnects_with (handle_input (session_new test_registry) (lit ''exit''))
      [])"

section \<open>Password\<close>

definition password_returns_auth_pending :: bool where
  "password_returns_auth_pending =
    (handle_input asked_password (lit ''secret'') = AuthPending (lit ''alice'') (lit ''secret''))"

definition complete_auth_success_advances_to_world_selection :: bool where
  "complete_auth_success_advances_to_world_selection =
    (case complete_auth (session_new test_registry) (Some alice) of
       Advance (WorldSelection _) output \<Rightarrow>
         str_contains (lit ''Welcome, alice'') output \<and> str_contains (lit ''Available worlds:'') output
     | _ \<Rightarrow> False)"

definition complete_auth_failure_returns_to_username :: bool where
  "complete_auth_failure_returns_to_username =
    (case complete_auth (session_new test_registry) None of
       Advance next output \<Rightarrow>
         next = Authenticating None \<and> str_contains (lit ''Authentication failed'') output \<and>
         str_contains (lit ''Username: '') output
     | _ \<Rightarrow> False)"

definition password_rejects_empty :: bool where
  "password_rejects_empty =
    (stays_with (handle_input asked_password ([]))
      [lit ''cannot be empty'', lit ''Password: ''])"

definition password_quit_disconnects :: bool where
  "password_quit_disconnects =
    (disconnects_with (handle_input asked_password (lit ''quit''))
      [])"

section \<open>World selection\<close>

definition world_selection_valid_choice :: bool where
  "world_selection_valid_choice =
    (disconnects_with (handle_input choosing_world (lit ''1''))
      [lit ''The Studio at Dusk'', lit ''Disconnecting''])"

definition world_selection_all_valid_choices :: bool where
  "world_selection_all_valid_choices =
    (list_all (\<lambda>(i, name). disconnects_with (handle_input choosing_world (usize_to_string (i + 1))) [name])
      (enumerate 0 [lit ''The Studio at Dusk'', lit ''The Mountain Trail'', lit ''The Library of Echoes'']))"

definition world_selection_zero_rejected :: bool where
  "world_selection_zero_rejected =
    (stays_with (handle_input choosing_world (lit ''0''))
      [lit ''between 1 and 3''])"

definition world_selection_out_of_range_rejected :: bool where
  "world_selection_out_of_range_rejected =
    (stays_with (handle_input choosing_world (lit ''4''))
      [lit ''between 1 and 3''])"

definition world_selection_non_numeric_rejected :: bool where
  "world_selection_non_numeric_rejected =
    (stays_with (handle_input choosing_world (lit ''abc''))
      [lit ''Please enter a number''])"

definition world_selection_empty_rejected :: bool where
  "world_selection_empty_rejected =
    (stays_with (handle_input choosing_world ([]))
      [lit ''Please enter a number'', lit ''Select a world''])"

definition world_selection_quit_disconnects :: bool where
  "world_selection_quit_disconnects =
    (disconnects_with (handle_input choosing_world (lit ''quit''))
      [lit ''strange tale''])"

section \<open>Rendering\<close>

definition format_world_list_matches_demo :: bool where
  "format_world_list_matches_demo =
    (starts_with_and_contains (lit ''Available worlds:'' @ [13, 10])
      [lit ''  1. The Studio at Dusk'', lit ''  2. The Mountain Trail'', lit ''  3. The Library of Echoes'']
      (format_world_list (worlds test_registry)))"

definition format_world_list_empty_registry :: bool where
  "format_world_list_empty_registry =
    (format_world_list [] = lit ''Available worlds:'' @ [13, 10])"

definition world_select_prompt_shows_range :: bool where
  "world_select_prompt_shows_range =
    (format_world_select_prompt 3 =
      lit ''Select a world (1-3, or '' @ [39] @ lit ''quit'' @ [39] @ lit ''): '')"

definition is_password_input_when_waiting_for_password :: bool where
  "is_password_input_when_waiting_for_password =
    (\<not> is_password_input (session_new test_registry) \<and> is_password_input asked_password)"

section \<open>All of them\<close>

lemma session_tests_pass_1:
  "session_terminator_quit"
  "session_terminator_exit"
  "session_terminator_bye"
  "session_terminator_disconnect"
  "session_terminator_whitespace"
  "session_terminator_case_insensitive"
  by code_simp+

lemma session_tests_pass_2:
  "session_terminator_rejects_other"
  "username_accepts_non_empty"
  "username_rejects_empty"
  "username_rejects_whitespace_only"
  "username_quit_disconnects"
  "username_exit_disconnects"
  by code_simp+

lemma session_tests_pass_3:
  "password_returns_auth_pending"
  "complete_auth_success_advances_to_world_selection"
  "complete_auth_failure_returns_to_username"
  "password_rejects_empty"
  "password_quit_disconnects"
  "world_selection_valid_choice"
  by code_simp+

lemma session_tests_pass_4:
  "world_selection_all_valid_choices"
  "world_selection_zero_rejected"
  "world_selection_out_of_range_rejected"
  "world_selection_non_numeric_rejected"
  "world_selection_empty_rejected"
  "world_selection_quit_disconnects"
  by code_simp+

lemma session_tests_pass_5:
  "format_world_list_matches_demo"
  "format_world_list_empty_registry"
  "world_select_prompt_shows_range"
  "is_password_input_when_waiting_for_password"
  by code_simp+

lemmas session_tests_pass =
  session_tests_pass_1 session_tests_pass_2 session_tests_pass_3 session_tests_pass_4 session_tests_pass_5

end
