(* ===== verification/ServiceTests.thy ===== *)
theory ServiceTests
  imports AccountProps RateLimiterProps WorldsProps
begin

text \<open>
  The unit tests of the account store, the rate limiter and the world registry
  (\<open>store.rs\<close>, \<open>rate_limiter.rs\<close>, \<open>registry.rs\<close>), translated one by one and evaluated on
  the model. The store's run with the instance \<open>plain_services\<close> of the other crates, the
  limiter's at instants that pass as the tests sleep, the registry's on what their TOML decodes to.
\<close>

section \<open>The account store\<close>

definition open_test_store :: "row list \<Rightarrow> error + store" where
  "open_test_store rows = store_open plain_services (Some (lit ''/tmp'')) None None None rows [] test_fast"

definition in_test_store :: "(store \<Rightarrow> bool) \<Rightarrow> bool" where
  "in_test_store k = (case open_test_store [] of Inr st \<Rightarrow> k st | Inl _ \<Rightarrow> False)"

definition creates :: "uuid \<Rightarrow> ustr \<Rightarrow> ustr \<Rightarrow> store \<Rightarrow> (error + account) \<times> store" where
  "creates fresh username password st =
    create_account plain_services 1000 [] fresh None username password st"

text \<open>What a test unwraps must be there.\<close>

definition created :: "uuid \<Rightarrow> ustr \<Rightarrow> ustr \<Rightarrow> (account \<Rightarrow> store \<Rightarrow> bool) \<Rightarrow> store \<Rightarrow> bool" where
  "created fresh username password k st =
    (case creates fresh username password st of (Inr a, st') \<Rightarrow> k a st' | (Inl _, _) \<Rightarrow> False)"

definition verifies :: "ustr \<Rightarrow> ustr \<Rightarrow> store \<Rightarrow> error + account option" where
  "verifies username password st = fst (verify_credentials plain_services None username password st)"

definition fails_with :: "ustr \<Rightarrow> error + 'a \<Rightarrow> bool" where
  "fails_with part r =
    (case r of Inl e \<Rightarrow> str_contains part (error_display e) | Inr _ \<Rightarrow> False)"

definition lists :: "(account list \<Rightarrow> bool) \<Rightarrow> store \<Rightarrow> bool" where
  "lists k st = (case list_accounts plain_services None st of Inr accounts \<Rightarrow> k accounts | Inl _ \<Rightarrow> False)"

definition open_is_idempotent :: bool where
  "open_is_idempotent =
    (case open_test_store [] of Inr st1 \<Rightarrow> is_ok (open_test_store (st_rows st1)) | Inl _ \<Rightarrow> False)"

definition create_account_succeeds :: bool where
  "create_account_succeeds =
    (in_test_store (created 1 (lit ''alice'') (lit ''secret'') (\<lambda>acct st.
      acc_username acct = lit ''alice'' \<and> 0 < acc_created_at acct \<and> acc_last_login_at acct = None)))"

definition create_account_duplicate_rejected :: bool where
  "create_account_duplicate_rejected =
    (in_test_store (created 1 (lit ''alice'') (lit ''secret'') (\<lambda>_ st.
      fails_with (lit ''already exists'') (fst (creates 2 (lit ''alice'') (lit ''other'') st)))))"

definition create_account_case_insensitive_duplicate :: bool where
  "create_account_case_insensitive_duplicate =
    (in_test_store (created 1 (lit ''Alice'') (lit ''secret'') (\<lambda>_ st.
      fails_with (lit ''already exists'') (fst (creates 2 (lit ''alice'') (lit ''other'') st)))))"

definition verify_credentials_correct_password :: bool where
  "verify_credentials_correct_password =
    (in_test_store (created 1 (lit ''alice'') (lit ''secret'') (\<lambda>_ st.
      case verifies (lit ''alice'') (lit ''secret'') st of
        Inr (Some a) \<Rightarrow> acc_username a = lit ''alice'' | _ \<Rightarrow> False)))"

definition verify_credentials_wrong_password :: bool where
  "verify_credentials_wrong_password =
    (in_test_store (created 1 (lit ''alice'') (lit ''secret'') (\<lambda>_ st.
      verifies (lit ''alice'') (lit ''wrong'') st = Inr None)))"

definition verify_credentials_unknown_user :: bool where
  "verify_credentials_unknown_user =
    (in_test_store (\<lambda>st. verifies (lit ''nobody'') (lit ''whatever'') st = Inr None))"

definition verify_credentials_case_insensitive_username :: bool where
  "verify_credentials_case_insensitive_username =
    (in_test_store (created 1 (lit ''Alice'') (lit ''secret'') (\<lambda>_ st.
      case verifies (lit ''alice'') (lit ''secret'') st of Inr r \<Rightarrow> r \<noteq> None | Inl _ \<Rightarrow> False)))"

definition list_accounts_empty :: bool where
  "list_accounts_empty =
    (in_test_store (lists (\<lambda>accounts. accounts = [])))"

definition list_accounts_after_create :: bool where
  "list_accounts_after_create =
    (in_test_store (created 1 (lit ''alice'') (lit ''secret'') (\<lambda>_ st.
      created 2 (lit ''bob'') (lit ''pass'') (\<lambda>_ st.
      lists (\<lambda>accounts.
        let names = map acc_username accounts
        in length accounts = 2 \<and> List.member names (lit ''alice'') \<and> List.member names (lit ''bob'')) st) st)))"

definition record_login_updates_timestamp :: bool where
  "record_login_updates_timestamp =
    (in_test_store (created 1 (lit ''alice'') (lit ''secret'') (\<lambda>acct st.
      acc_last_login_at acct = None \<and>
      (case record_login plain_services 2000 None (acc_id acct) st of
         (Inr _, st2) \<Rightarrow>
           lists (\<lambda>accounts. case find (\<lambda>a. acc_username a = lit ''alice'') accounts of
              Some a \<Rightarrow> acc_last_login_at a \<noteq> None | None \<Rightarrow> False) st2
       | (Inl _, _) \<Rightarrow> False))))"

section \<open>The rate limiter\<close>

text \<open>Instants and windows are in nanoseconds; the tests start at some time after the boot.\<close>

definition test_now :: instant where
  "test_now = 1000000000000"

definition limiter_of_secs :: "int \<Rightarrow> nat \<Rightarrow> nat \<Rightarrow> rate_limiter" where
  "limiter_of_secs secs max_failures max_entries =
    rate_limiter_new (secs * 1000000000) max_failures max_entries"

definition ip_n :: "u32 \<Rightarrow> ip_addr" where
  "ip_n n = V4 (0x0A000000 + n)"

definition test_ip :: ip_addr where
  "test_ip = ip_n 1"

definition other_ip :: ip_addr where
  "other_ip = ip_n 2"

definition fails_at :: "instant \<Rightarrow> ip_addr \<Rightarrow> rate_limiter \<Rightarrow> rate_limiter" where
  "fails_at t ip rl = record_failure id 0 t t t ip rl"

definition throttled_at :: "instant \<Rightarrow> ip_addr \<Rightarrow> rate_limiter \<Rightarrow> bool \<times> rate_limiter" where
  "throttled_at t ip rl = is_throttled 0 t t ip rl"

definition failing :: "nat \<Rightarrow> rate_limiter \<Rightarrow> rate_limiter" where
  "failing n rl = fold (\<lambda>_. fails_at test_now test_ip) [0..<n] rl"

definition not_throttled_initially :: bool where
  "not_throttled_initially =
    (\<not> fst (throttled_at test_now test_ip (limiter_of_secs 60 3 10000)))"

definition throttled_after_max_failures :: bool where
  "throttled_after_max_failures =
    (fst (throttled_at test_now test_ip (failing 3 (limiter_of_secs 60 3 10000))))"

definition not_throttled_below_max :: bool where
  "not_throttled_below_max =
    (\<not> fst (throttled_at test_now test_ip (failing 2 (limiter_of_secs 60 3 10000))))"

definition reset_clears_history :: bool where
  "reset_clears_history =
    (case throttled_at test_now test_ip (failing 3 (limiter_of_secs 60 3 10000)) of
       (throttled, rl) \<Rightarrow> throttled \<and> \<not> fst (throttled_at test_now test_ip (reset test_ip rl)))"

definition old_entries_pruned :: bool where
  "old_entries_pruned =
    (case throttled_at test_now test_ip (failing 3 (rate_limiter_new 50000000 3 10000)) of
       (throttled, rl) \<Rightarrow> throttled \<and> \<not> fst (throttled_at (test_now + 100000000) test_ip rl))"

definition different_ips_tracked_independently :: bool where
  "different_ips_tracked_independently =
    (case throttled_at test_now test_ip (failing 3 (limiter_of_secs 60 3 10000)) of
       (throttled, rl) \<Rightarrow> throttled \<and> \<not> fst (throttled_at test_now other_ip rl))"

definition eviction_when_at_cap :: bool where
  "eviction_when_at_cap =
    (case rl_failures (fails_at (test_now + 20000001) (ip_n 4) (fails_at (test_now + 20000000) (ip_n 3)
       (fails_at (test_now + 10000000) (ip_n 2) (fails_at test_now (ip_n 1) (limiter_of_secs 60 3 3))))) of
       m \<Rightarrow> length m = 3 \<and> map_of m (ip_n 1) = None \<and> map_of m (ip_n 4) \<noteq> None)"

definition no_eviction_below_cap :: bool where
  "no_eviction_below_cap =
    (length (rl_failures (fails_at test_now (ip_n 2) (fails_at test_now (ip_n 1) (limiter_of_secs 60 3 5)))) = 2)"

definition existing_ip_not_evicted :: bool where
  "existing_ip_not_evicted =
    (case rl_failures (fails_at test_now (ip_n 1) (fails_at test_now (ip_n 2)
       (fails_at test_now (ip_n 1) (limiter_of_secs 60 3 2)))) of
       m \<Rightarrow> length m = 2 \<and> map_of m (ip_n 1) \<noteq> None \<and> map_of m (ip_n 2) \<noteq> None)"

section \<open>The world registry\<close>

definition entry :: "string \<Rightarrow> string \<Rightarrow> string \<Rightarrow> world_entry_dto" where
  "entry slug name short = \<lparr>dto_slug = lit slug, dto_name = lit name, dto_short = lit short\<rparr>"

definition parsed :: "world_entry_dto list \<Rightarrow> ustr + world_metadata list" where
  "parsed entries = parse_worlds_toml (\<lambda>_. Inr entries) of_nat []"

definition VALID_TOML :: "world_entry_dto list" where
  "VALID_TOML =
    [entry ''studio-dusk'' ''The Studio at Dusk'' ''A small interior, warmly lit.'',
     entry ''mountain-trail'' ''The Mountain Trail'' ''A path winding into mist.'',
     entry ''library-echoes'' ''The Library of Echoes'' ''A reading room of recursive proportions.'']"

definition refused_with :: "ustr \<Rightarrow> ustr + 'a \<Rightarrow> bool" where
  "refused_with part r = (case r of Inl e \<Rightarrow> str_contains part e | Inr _ \<Rightarrow> False)"

definition two_worlds :: world_registry where
  "two_worlds = registry_new
    [world_metadata_new 1 (lit ''a'') (lit ''Alpha'') (lit ''First''),
     world_metadata_new 2 (lit ''b'') (lit ''Beta'') (lit ''Second'')]"

definition parses_three_worlds_from_valid_toml :: bool where
  "parses_three_worlds_from_valid_toml =
    (map_err (\<lambda>_. ()) (and_then (parsed VALID_TOML) (\<lambda>ws. Inr (map wm_slug ws))) =
      Inr [lit ''studio-dusk'', lit ''mountain-trail'', lit ''library-echoes''])"

definition preserves_declaration_order :: bool where
  "preserves_declaration_order =
    (and_then (parsed VALID_TOML) (\<lambda>ws. Inr (map wm_name ws)) =
      Inr [lit ''The Studio at Dusk'', lit ''The Mountain Trail'', lit ''The Library of Echoes''])"

definition rejects_empty_slug :: bool where
  "rejects_empty_slug =
    (refused_with (lit ''slug is empty'')
      (parsed [entry '''' ''Test'' ''Desc'']))"

definition rejects_empty_name :: bool where
  "rejects_empty_name =
    (refused_with (lit ''name is empty'')
      (parsed [entry ''test'' '''' ''Desc'']))"

definition rejects_empty_short :: bool where
  "rejects_empty_short =
    (refused_with (lit ''short description is empty'')
      (parsed [entry ''test'' ''Test'' '''']))"

definition rejects_duplicate_slug :: bool where
  "rejects_duplicate_slug =
    (refused_with (lit ''duplicate slug '' @ [39] @ lit ''same'' @ [39])
      (parsed [entry ''same'' ''First'' ''Desc'',
        entry ''same'' ''Second'' ''Desc'']))"

definition rejects_whitespace_only_slug :: bool where
  "rejects_whitespace_only_slug =
    (refused_with (lit ''slug is empty'')
      (parsed [entry ''   '' ''Test'' ''Desc'']))"

definition slug_is_trimmed_before_storage :: bool where
  "slug_is_trimmed_before_storage =
    (case parsed [entry ''  abc  '' ''  Alpha  '' ''  First  ''] of
       Inr [w] \<Rightarrow> wm_slug w = lit ''abc'' \<and> wm_name w = lit ''Alpha'' \<and> wm_short_description w = lit ''First''
     | _ \<Rightarrow> False)"

definition duplicate_detection_after_trim :: bool where
  "duplicate_detection_after_trim =
    (refused_with (lit ''duplicate slug '' @ [39] @ lit ''abc'' @ [39])
      (parsed [entry ''abc'' ''First'' ''Desc'',
        entry ''  abc  '' ''Second'' ''Desc'']))"

definition new_with_worlds_preserves_order :: bool where
  "new_with_worlds_preserves_order =
    (map wm_slug (worlds two_worlds) = [lit ''a'', lit ''b''])"

definition len_and_is_empty_match :: bool where
  "len_and_is_empty_match =
    (case registry_new [world_metadata_new 1 (lit ''a'') (lit ''Alpha'') (lit ''First'')] of
       reg \<Rightarrow> registry_len reg = 1 \<and> \<not> registry_is_empty reg \<and>
         registry_len (registry_new []) = 0 \<and> registry_is_empty (registry_new []))"

definition get_by_position_valid :: bool where
  "get_by_position_valid =
    (map_option wm_name (get_by_position two_worlds 1) = Some (lit ''Alpha'') \<and>
     map_option wm_name (get_by_position two_worlds 2) = Some (lit ''Beta'') \<and>
     get_by_position two_worlds 0 = None \<and> get_by_position two_worlds 3 = None)"

definition loads_valid_file :: bool where
  "loads_valid_file =
    (case load_from_toml (\<lambda>_. Inr []) (\<lambda>_. Inr VALID_TOML) of_nat (lit ''worlds.toml'') of
       Inr reg \<Rightarrow> registry_len reg = 3 \<and> wm_name (worlds reg ! 0) = lit ''The Studio at Dusk''
     | Inl _ \<Rightarrow> False)"

definition errors_on_missing_file :: bool where
  "errors_on_missing_file =
    (fails_with (lit ''reading'')
      (load_from_toml (\<lambda>_. Inl (lit ''No such file'')) (\<lambda>_. Inr []) of_nat (lit ''/nonexistent/worlds.toml'')))"

definition errors_on_invalid_toml :: bool where
  "errors_on_invalid_toml =
    (fails_with (lit ''parsing'')
      (load_from_toml (\<lambda>_. Inr (lit ''not valid toml {{{{'')) (\<lambda>_. Inl (lit ''expected ='')) of_nat (lit ''worlds.toml'')))"

definition errors_on_empty_registry :: bool where
  "errors_on_empty_registry =
    (fails_with (lit ''empty'')
      (load_from_toml (\<lambda>_. Inr (lit ''world = []'')) (\<lambda>_. Inr []) of_nat (lit ''worlds.toml'')))"

section \<open>All of them\<close>

lemma service_tests_pass_1:
  "open_is_idempotent"
  "create_account_succeeds"
  "create_account_duplicate_rejected"
  "create_account_case_insensitive_duplicate"
  "verify_credentials_correct_password"
  "verify_credentials_wrong_password"
  by code_simp+

lemma service_tests_pass_2:
  "verify_credentials_unknown_user"
  "verify_credentials_case_insensitive_username"
  "list_accounts_empty"
  "list_accounts_after_create"
  "record_login_updates_timestamp"
  "not_throttled_initially"
  by code_simp+

lemma service_tests_pass_3:
  "throttled_after_max_failures"
  "not_throttled_below_max"
  "reset_clears_history"
  "old_entries_pruned"
  "different_ips_tracked_independently"
  "eviction_when_at_cap"
  by code_simp+

lemma service_tests_pass_4:
  "no_eviction_below_cap"
  "existing_ip_not_evicted"
  "parses_three_worlds_from_valid_toml"
  "preserves_declaration_order"
  "rejects_empty_slug"
  "rejects_empty_name"
  by code_simp+

lemma service_tests_pass_5:
  "rejects_empty_short"
  "rejects_duplicate_slug"
  "rejects_whitespace_only_slug"
  "slug_is_trimmed_before_storage"
  "duplicate_detection_after_trim"
  "new_with_worlds_preserves_order"
  by code_simp+

lemma service_tests_pass_6:
  "len_and_is_empty_match"
  "get_by_position_valid"
  "loads_valid_file"
  "errors_on_missing_file"
  "errors_on_invalid_toml"
  "errors_on_empty_registry"
  by code_simp+

lemmas service_tests_pass =
  service_tests_pass_1 service_tests_pass_2 service_tests_pass_3 service_tests_pass_4 service_tests_pass_5 service_tests_pass_6

end
