(* ===== verification/ConnectionTests.thy ===== *)
theory ConnectionTests
  imports Exchange SessionTests
begin

text \<open>
  The conversations of the tests in \<open>crates/liaozhai-net/src/connection.rs\<close>, evaluated on
  the handler joined to its reader. A test is a list of exchanges: what happens at the
  socket, and the texts the client must then be able to read. The tests run on the store
  and the worlds their \<open>setup\<close> makes, with the instance \<open>plain_services\<close> of the other crates.
  The answer to each line is a lemma, so a test is proved by rewriting.
\<close>

section \<open>Fixtures\<close>

text \<open>The context and the shared state of \<open>setup\<close>: an account for alice, a limit of three.\<close>

definition test_cx :: "(unit, ustr) session_context" where
  "test_cx =
    \<lparr>cx_services = plain_services, cx_registry = test_registry, cx_max_login_attempts = 3,
     cx_order = id, cx_imin = 0, cx_ip = V4 0x7F000001\<rparr>"

definition test_shared :: shared where
  "test_shared =
    \<lparr>sh_store = snd (create_account plain_services 1000 [] 7 None (lit ''alice'') (lit ''secret'') empty_store),
     sh_limiter = rate_limiter_new 60000000000 10 10000\<rparr>"

definition test_now :: instant where
  "test_now = 1000000000000"

definition test_am :: ambient where
  "test_am =
    \<lparr>am_verify_fault = None, am_login_clock = 2000, am_login_fault = None,
     am_now1 = test_now, am_now2 = test_now, am_now3 = test_now, am_meanwhile = []\<rparr>"

lemma test_shared_code [code]:
  "test_shared =
    \<lparr>sh_store =
       \<lparr>st_rows = [\<lparr>row_id = [7], row_username = lit ''alice'', row_hash = lit ''secret'',
          row_created_at = 1000, row_last_login_at = None\<rparr>],
        st_params = test_fast, st_dummy_hash = lit ''dummy'', st_poisoned = False\<rparr>,
     sh_limiter = rate_limiter_new 60000000000 10 10000\<rparr>"
  by code_simp

section \<open>Conversations\<close>

text \<open>The connection once the client has read the banner and the first prompt.\<close>

definition connected :: "('p, 'h) session_context \<Rightarrow> codec \<Rightarrow> shared \<Rightarrow> link option" where
  "connected cx codec sh =
    (case open_link cx test_now test_now codec (writer_new []) sh of
       Some lk \<Rightarrow>
         (case read_sent lk of
            (reply, lk') \<Rightarrow> if reads_all [lit ''Username: ''] reply then Some lk' else None)
     | None \<Rightarrow> None)"

definition converse :: "exchange list \<Rightarrow> link option" where
  "converse exchanges = Option.bind (connected test_cx codec_new test_shared) (talk test_cx exchanges)"

definition client_says :: "string \<Rightarrow> wire_event" where
  "client_says s = says test_am (lit s)"

section \<open>The answers of the session\<close>

lemma greeting: "valid_str (BANNER @ initial_prompt)"
  "str_contains (lit ''Username: '') (BANNER @ initial_prompt)"
  "str_contains (lit ''Liaozhai MUX'') (BANNER @ initial_prompt)"
  by code_simp+

lemma connected_sits:
  "connected cx c test_shared = Some (sits c (cx_registry cx) (Authenticating None) 0 0 test_shared)"
  using greeting reads_text [OF greeting(1)]
  by (simp add: connected_def open_link_def test_shared_code is_throttled_def rate_limiter_new_def
      write_raw_def writer_new_def read_sent_def conn_new_def session_new_def sits_def
      del: lit_simps encode_append)

lemma converse_sits:
  "converse exchanges =
    talk test_cx exchanges (sits codec_new test_registry (Authenticating None) 0 0 test_shared)"
  by (simp add: converse_def connected_sits) (simp add: test_cx_def)

definition test_account :: account where
  "test_account = \<lparr>acc_id = AccountId 7, acc_username = lit ''alice'', acc_created_at = 1000,
    acc_last_login_at = None\<rparr>"

lemma test_am_simps [simp]: "am_verify_fault test_am = None" "am_meanwhile test_am = []"
  by (simp_all add: test_am_def)

lemma test_cx_simps [simp]:
  "cx_services test_cx = plain_services" "cx_max_login_attempts test_cx = 3"
  by (simp_all add: test_cx_def)

lemma store_on_failure [simp]: "sh_store (on_failure cx am sh) = sh_store sh"
  by (simp add: on_failure_def)

lemma test_verify:
  "fst (verify_credentials plain_services None (lit ''alice'') (lit ''secret'') (sh_store test_shared)) =
    Inr (Some test_account)"
  "fst (verify_credentials plain_services None (lit ''alice'') (lit ''wrong'') (sh_store test_shared)) =
    Inr None"
  "fst (verify_credentials plain_services None (lit ''alice'') (lit ''wrongpass'') (sh_store test_shared)) =
    Inr None"
  "fst (verify_credentials plain_services None (lit ''nobody'') (lit ''whatever'') (sh_store test_shared)) =
    Inr None"
  by code_simp+

lemma test_lines:
  "sent_line codec_new (lit ''alice'')" "sent_line codec_new (lit ''secret'')"
  "sent_line codec_new (lit ''wrong'')" "sent_line codec_new (lit ''wrongpass'')"
  "sent_line codec_new (lit ''nobody'')" "sent_line codec_new (lit ''whatever'')"
  "sent_line codec_new (lit ''quit'')" "sent_line codec_new (lit [])"
  "sent_line codec_new (lit ''1'')" "sent_line codec_new (lit ''2'')" "sent_line codec_new (lit ''4'')"
  by code_simp+

lemma test_credentials:
  "credential_text (lit ''alice'')" "credential_text (lit ''secret'')"
  "credential_text (lit ''wrong'')" "credential_text (lit ''wrongpass'')"
  "credential_text (lit ''nobody'')" "credential_text (lit ''whatever'')"
  by code_simp+

lemma attempts_left: "\<not> (3 :: u32) \<le> 1" "\<not> (3 :: u32) \<le> 2"
  by code_simp+

lemma quit_ends: "is_session_terminator (lit ''quit'')"
  by code_simp

lemma blank_username:
  "handle_input \<lparr>ses_state = Authenticating None, ses_registry = reg\<rparr> (lit []) =
    Stay (EMPTY_USERNAME_MSG @ USERNAME_PROMPT)"
  by (simp add: handle_input_def handle_username_input_def trim_Nil)

definition test_studio :: world_metadata where
  "test_studio = worlds test_registry ! 0"

definition test_trail :: world_metadata where
  "test_trail = worlds test_registry ! 1"

definition test_out_of_range :: ustr where
  "test_out_of_range = lit ''Please enter a number between 1 and 3.'' @ crlf @ format_world_select_prompt 3"

lemma test_choices:
  "handle_input \<lparr>ses_state = WorldSelection a, ses_registry = test_registry\<rparr> (lit ''1'') =
    Disconnect (entered_text test_studio)"
  "handle_input \<lparr>ses_state = WorldSelection a, ses_registry = test_registry\<rparr> (lit ''2'') =
    Disconnect (entered_text test_trail)"
  "handle_input \<lparr>ses_state = WorldSelection a, ses_registry = test_registry\<rparr> (lit ''4'') =
    Stay test_out_of_range"
  by code_simp+

section \<open>The texts of the answers\<close>

lemma answer_texts:
  "valid_str (PASSWORD_PROMPT)"
  "str_contains (lit ''Password: '') (PASSWORD_PROMPT)"
  "valid_str (AUTH_FAILED_MSG @ USERNAME_PROMPT)"
  "str_contains (lit ''Username: '') (AUTH_FAILED_MSG @ USERNAME_PROMPT)"
  "str_contains (lit ''Authentication failed'') (AUTH_FAILED_MSG @ USERNAME_PROMPT)"
  "valid_str (AUTH_MAX_RETRIES_MSG)"
  "str_contains (lit ''Too many failed attempts. Disconnecting.'') (AUTH_MAX_RETRIES_MSG)"
  "valid_str (welcome_text test_account test_registry)"
  "str_contains (lit ''Select a world'') (welcome_text test_account test_registry)"
  "str_contains (lit ''Welcome, alice'') (welcome_text test_account test_registry)"
  "str_contains (lit ''Available worlds:'') (welcome_text test_account test_registry)"
  "str_contains (lit ''Select a world (1-3, or '' @ 39 # lit ''quit'' @ 39 # lit ''):'') (welcome_text test_account test_registry)"
  "str_contains (lit ''Welcome'') (welcome_text test_account test_registry)"
  "valid_str (entered_text test_studio)"
  "str_contains (lit ''Disconnecting'') (entered_text test_studio)"
  "str_contains (lit ''The Studio at Dusk'') (entered_text test_studio)"
  "valid_str (entered_text test_trail)"
  "str_contains (lit ''Disconnecting'') (entered_text test_trail)"
  "str_contains (lit ''The Mountain Trail'') (entered_text test_trail)"
  "valid_str (GOODBYE_MSG)"
  "str_contains (lit ''Until the next strange tale.'') (GOODBYE_MSG)"
  "valid_str (EMPTY_USERNAME_MSG @ USERNAME_PROMPT)"
  "str_contains (lit ''Username: '') (EMPTY_USERNAME_MSG @ USERNAME_PROMPT)"
  "str_contains (lit ''cannot be empty'') (EMPTY_USERNAME_MSG @ USERNAME_PROMPT)"
  "valid_str (test_out_of_range)"
  "str_contains (lit ''Select a world'') (test_out_of_range)"
  "str_contains (lit ''between 1 and 3'') (test_out_of_range)"
  "valid_str (BUFFER_OVERFLOW_MSG)"
  "str_contains (lit ''Buffer overflow; disconnecting.'') (BUFFER_OVERFLOW_MSG)"
  "valid_str (LINE_TOO_LONG_MSG)"
  "str_contains (lit ''Line too long'') (LINE_TOO_LONG_MSG)"
  "str_contains (lit ''Line too long; ignored.'') (LINE_TOO_LONG_MSG)"
  "valid_str (SHUTDOWN_MSG)"
  "str_contains (lit ''The studio closes for now'') (SHUTDOWN_MSG)"
  "valid_str (AUTH_RATE_LIMITED_MSG)"
  "str_contains (lit ''Too many failed attempts from your IP'') (AUTH_RATE_LIMITED_MSG)"
  by code_simp+


section \<open>Logging in\<close>

definition full_v01_demo :: bool where
  "full_v01_demo =
    (reads_all [lit ''Username: '', lit ''Liaozhai MUX''] (w_sent (snd (write_raw (encode (BANNER @ initial_prompt)) (writer_new [])))) \<and>
     returned (converse [(client_says ''alice'', [lit ''Password: '']),
       (client_says ''secret'', [lit ''Select a world'', lit ''Welcome, alice'', lit ''Available worlds:'', lit ''Select a world (1-3, or '' @ 39 # lit ''quit'' @ 39 # lit ''):'']),
       (client_says ''1'', [lit ''Disconnecting'', lit ''The Studio at Dusk''])]))"

definition failed_login_re_prompts_for_username :: bool where
  "failed_login_re_prompts_for_username =
    (returned (converse [(client_says ''alice'', [lit ''Password: '']),
       (client_says ''wrongpass'', [lit ''Username: '', lit ''Authentication failed'']),
       (client_says ''quit'', [])]))"

definition three_failed_logins_disconnects :: bool where
  "three_failed_logins_disconnects =
    (returned (converse [(client_says ''alice'', [lit ''Password: '']),
       (client_says ''wrong'', [lit ''Username: '']),
       (client_says ''alice'', [lit ''Password: '']),
       (client_says ''wrong'', [lit ''Username: '']),
       (client_says ''alice'', [lit ''Password: '']),
       (client_says ''wrong'', [lit ''Too many failed attempts. Disconnecting.''])]))"

definition unknown_user_returns_auth_failed :: bool where
  "unknown_user_returns_auth_failed =
    (returned (converse [(client_says ''nobody'', [lit ''Password: '']),
       (client_says ''whatever'', [lit ''Username: '', lit ''Authentication failed'']),
       (client_says ''quit'', [])]))"

section \<open>Echo\<close>

definition reply_to :: "exchange list \<Rightarrow> wire_event \<Rightarrow> bytes" where
  "reply_to exchanges ev =
    (case converse exchanges of Some lk \<Rightarrow> fst (read_sent (wire_step test_cx ev lk)) | None \<Rightarrow> [])"

definition iac_will_echo_before_password_prompt :: bool where
  "iac_will_echo_before_password_prompt =
    (holds_bytes IAC_WILL_ECHO (reply_to [] (client_says ''alice'')) \<and>
     returned (converse [(client_says ''alice'', [lit ''Password: '']),
       (client_says ''quit'', [])]))"

definition iac_wont_echo_after_password :: bool where
  "iac_wont_echo_after_password =
    (holds_bytes IAC_WONT_ECHO (reply_to [(client_says ''alice'', [lit ''Password: ''])] (client_says ''secret'')) \<and>
     returned (converse [(client_says ''alice'', [lit ''Password: '']),
       (client_says ''secret'', [lit ''Welcome'']),
       (client_says ''quit'', [])]))"

section \<open>Leaving and mistakes\<close>

definition quit_at_username_state :: bool where
  "quit_at_username_state =
    (returned (converse [(client_says ''quit'', [lit ''Until the next strange tale.''])]))"

definition quit_at_password_state :: bool where
  "quit_at_password_state =
    (returned (converse [(client_says ''alice'', [lit ''Password: '']),
       (client_says ''quit'', [lit ''Until the next strange tale.''])]))"

definition quit_at_world_selection_state :: bool where
  "quit_at_world_selection_state =
    (returned (converse [(client_says ''alice'', [lit ''Password: '']),
       (client_says ''secret'', [lit ''Select a world'']),
       (client_says ''quit'', [lit ''Until the next strange tale.''])]))"

definition invalid_username_re_prompts :: bool where
  "invalid_username_re_prompts =
    (returned (converse [(client_says [], [lit ''Username: '', lit ''cannot be empty'']),
       (client_says ''quit'', [])]))"

definition invalid_world_selection_re_prompts :: bool where
  "invalid_world_selection_re_prompts =
    (returned (converse [(client_says ''alice'', [lit ''Password: '']),
       (client_says ''secret'', [lit ''Select a world'']),
       (client_says ''4'', [lit ''Select a world'', lit ''between 1 and 3'']),
       (client_says ''2'', [lit ''Disconnecting'', lit ''The Mountain Trail''])]))"

definition client_disconnect_without_quit :: bool where
  "client_disconnect_without_quit =
    (returned (converse [(Closed_by_peer test_am, [])]))"

definition iac_bytes_stripped_during_session :: bool where
  "iac_bytes_stripped_during_session =
    (returned (converse [(Chunk test_am (255 # 251 # 1 # encode (lit ''alice'') @ [13, 10]), [lit ''Password: '']),
       (client_says ''quit'', [])]))"

section \<open>Limits\<close>

definition line_too_long_during_session :: bool where
  "line_too_long_during_session =
    (returned (converse [(Chunk test_am (replicate 5000 120), [lit ''Line too long'', lit ''Line too long; ignored.'']),
       (Chunk test_am [13, 10], []),
       (client_says ''quit'', [])]))"

definition buffer_overflow_disconnects_client :: bool where
  "buffer_overflow_disconnects_client =
    (returned (Option.bind (connected test_cx (with_limits 4096 256) test_shared)
       (talk test_cx [(Chunk test_am (replicate 300 120), [lit ''Buffer overflow; disconnecting.''])])))"

definition throttled_shared :: shared where
  "throttled_shared = test_shared\<lparr>sh_limiter :=
    fold (\<lambda>_. record_failure id 0 test_now test_now test_now (V4 0x7F000001)) [0..<15]
      (sh_limiter test_shared)\<rparr>"

definition rate_limited_connection_rejected_immediately :: bool where
  "rate_limited_connection_rejected_immediately =
    (case handle_connection_with_codec test_cx test_now test_now codec_new [] (writer_new []) throttled_shared of
       (r, w, sh) \<Rightarrow> r = Some (Inr ()) \<and> w_shut w \<and>
         reads_all [lit ''Too many failed attempts from your IP''] (w_sent w))"

definition successful_login_records_last_login_at :: bool where
  "successful_login_records_last_login_at =
    (case converse [(client_says ''alice'', [lit ''Password: '']), (client_says ''secret'', [lit ''Select a world'']), (client_says ''quit'', [])] of
       None \<Rightarrow> False
     | Some lk \<Rightarrow> returned (Some lk) \<and>
         (case list_accounts plain_services None (sh_store (ln_shared lk)) of
            Inl _ \<Rightarrow> False
          | Inr accounts \<Rightarrow>
              (case find (\<lambda>a. acc_username a = lit ''alice'') accounts of
                 Some a \<Rightarrow> acc_last_login_at a \<noteq> None
               | None \<Rightarrow> False)))"

section \<open>Worlds and shutdown\<close>

definition toml_worlds :: "world_entry_dto list" where
  "toml_worlds =
    [\<lparr>dto_slug = lit ''test-a'', dto_name = lit ''Test World Alpha'', dto_short = lit ''The first test world.''\<rparr>,
     \<lparr>dto_slug = lit ''test-b'', dto_name = lit ''Test World Bravo'', dto_short = lit ''The second test world.''\<rparr>]"

definition cx_with_toml_worlds :: "(unit, ustr) session_context option" where
  "cx_with_toml_worlds =
    (case load_from_toml (\<lambda>_. Inr []) (\<lambda>_. Inr toml_worlds) of_nat (lit ''worlds.toml'') of
       Inr reg \<Rightarrow> Some (test_cx\<lparr>cx_registry := reg\<rparr>)
     | Inl _ \<Rightarrow> None)"

definition world_list_loaded_from_toml :: bool where
  "world_list_loaded_from_toml =
    (case cx_with_toml_worlds of
       Some cx \<Rightarrow> returned (Option.bind (connected cx codec_new test_shared) (talk cx
         [(client_says ''alice'', [lit ''Password: '']),
          (client_says ''secret'', [lit ''Select a world'', lit ''Test World Alpha'', lit ''Test World Bravo'', lit ''Select a world (1-2, or '' @ 39 # lit ''quit'' @ 39 # lit ''):'']),
          (client_says ''quit'', [])]))
     | None \<Rightarrow> False)"

definition shutdown_cancels_active_session :: bool where
  "shutdown_cancels_active_session =
    (returned (converse [(Shutdown_signal test_am, [lit ''The studio closes for now''])]))"

definition shutdown_during_auth :: bool where
  "shutdown_during_auth =
    (returned (converse [(client_says ''alice'', [lit ''Password: '']),
       (Shutdown_signal test_am, [lit ''The studio closes for now''])]))"

definition shutdown_during_world_selection :: bool where
  "shutdown_during_world_selection =
    (returned (converse [(client_says ''alice'', [lit ''Password: '']),
       (client_says ''secret'', [lit ''Select a world'']),
       (Shutdown_signal test_am, [lit ''The studio closes for now''])]))"

definition shutdown_at_idle_session :: bool where
  "shutdown_at_idle_session =
    (returned (converse [(client_says ''alice'', [lit ''Password: '']),
       (client_says ''secret'', [lit ''Select a world'']),
       (Shutdown_signal test_am, [lit ''The studio closes for now''])]))"

section \<open>All of them\<close>

lemma iac_before_alice:
  "feed codec_new [] (255 # 251 # 1 # encode (lit ''alice'') @ [13, 10]) =
    ([Inr (Line (lit ''alice''))], codec_new, [])"
  by code_simp

lemma test_limits: "open_codec (with_limits 4096 256)" "max_buffer_size (with_limits 4096 256) = 256"
  "max_line_length codec_new = 4096" "5000 \<le> max_buffer_size codec_new" "2 \<le> max_buffer_size codec_new"
  by code_simp+

lemma echo_commands: "IAC_WILL_ECHO \<noteq> []" "IAC_WONT_ECHO \<noteq> []"
  by (simp_all add: byte_defs)

lemma no_terminator_x: "IAC \<noteq> 120" "LF \<noteq> 120" "CR \<noteq> 120"
  by (simp_all add: byte_defs)

lemma test_login_recorded:
  "list_accounts plain_services None (sh_store (on_success test_cx test_am test_account test_shared)) =
    Inr [test_account\<lparr>acc_last_login_at := Some 2000\<rparr>]"
  by code_simp

lemma test_username: "acc_username test_account = lit ''alice''"
  by (simp add: test_account_def del: lit_simps)

lemma test_throttled: "fst (is_throttled 0 test_now test_now (V4 0x7F000001) (sh_limiter throttled_shared))"
  by code_simp

lemma fresh_writer: "w_sent (snd (write_raw bs (writer_new []))) = bs"
  "w_sent (writer_shutdown w) = w_sent w" "w_shut (writer_shutdown w)"
  by (simp_all add: write_raw_def writer_new_def writer_shutdown_def)

lemma throttled_run:
  "handle_connection_with_codec test_cx test_now test_now codec_new [] (writer_new []) throttled_shared =
    (Some (Inr ()), writer_shutdown (snd (write_raw (encode AUTH_RATE_LIMITED_MSG) (writer_new []))),
     throttled_shared\<lparr>sh_limiter := snd (is_throttled 0 test_now test_now (V4 0x7F000001)
       (sh_limiter throttled_shared))\<rparr>)"
proof -
  obtain rl where "is_throttled 0 test_now test_now (V4 0x7F000001) (sh_limiter throttled_shared) = (True, rl)"
    using test_throttled by (metis (full_types) prod.collapse)
  then show ?thesis
    by (simp add: handle_connection_with_codec_def handle_connection_def test_cx_def Let_def
        del: lit_simps)
qed

definition toml_registry :: world_registry where
  "toml_registry = registry_new
    [world_metadata_new 0 (lit ''test-a'') (lit ''Test World Alpha'') (lit ''The first test world.''),
     world_metadata_new 1 (lit ''test-b'') (lit ''Test World Bravo'') (lit ''The second test world.'')]"

lemma toml_loaded:
  "load_from_toml (\<lambda>_. Inr []) (\<lambda>_. Inr toml_worlds) of_nat (lit ''worlds.toml'') = Inr toml_registry"
  by code_simp

lemma toml_texts:
  "valid_str (welcome_text test_account toml_registry)"
  "str_contains (lit ''Select a world'') (welcome_text test_account toml_registry)"
  "str_contains (lit ''Test World Alpha'') (welcome_text test_account toml_registry)"
  "str_contains (lit ''Test World Bravo'') (welcome_text test_account toml_registry)"
  "str_contains (lit ''Select a world (1-2, or '' @ 39 # lit ''quit'' @ 39 # lit ''):'') (welcome_text test_account toml_registry)"
  by code_simp+

lemmas test_facts = converse_sits connected_sits client_says_def say_name say_password say_wrong_password
  say_quit say_stay say_end say_shutdown say_nothing_more test_verify test_lines test_credentials
  attempts_left quit_ends blank_username test_choices answer_texts greeting fresh_writer
  reply_to_def echo_commands holds_front test_limits say_too_much say_overlong say_end_of_overlong
  no_terminator_x test_login_recorded test_username throttled_run say_same [OF iac_before_alice]
  cx_with_toml_worlds_def toml_loaded toml_texts

lemma full_v01_demo_passes: "full_v01_demo"
  by (simp add: full_v01_demo_def test_facts del: lit_simps encode_append)

lemma failed_login_re_prompts_for_username_passes: "failed_login_re_prompts_for_username"
  by (simp add: failed_login_re_prompts_for_username_def test_facts del: lit_simps encode_append)

lemma three_failed_logins_disconnects_passes: "three_failed_logins_disconnects"
  by (simp add: three_failed_logins_disconnects_def test_facts del: lit_simps encode_append)

lemma unknown_user_returns_auth_failed_passes: "unknown_user_returns_auth_failed"
  by (simp add: unknown_user_returns_auth_failed_def test_facts del: lit_simps encode_append)

lemma iac_will_echo_before_password_prompt_passes: "iac_will_echo_before_password_prompt"
  by (simp add: iac_will_echo_before_password_prompt_def test_facts del: lit_simps encode_append)

lemma iac_wont_echo_after_password_passes: "iac_wont_echo_after_password"
  by (simp add: iac_wont_echo_after_password_def test_facts del: lit_simps encode_append)

lemma quit_at_username_state_passes: "quit_at_username_state"
  by (simp add: quit_at_username_state_def test_facts del: lit_simps encode_append)

lemma quit_at_password_state_passes: "quit_at_password_state"
  by (simp add: quit_at_password_state_def test_facts del: lit_simps encode_append)

lemma quit_at_world_selection_state_passes: "quit_at_world_selection_state"
  by (simp add: quit_at_world_selection_state_def test_facts del: lit_simps encode_append)

lemma invalid_username_re_prompts_passes: "invalid_username_re_prompts"
  by (simp add: invalid_username_re_prompts_def test_facts del: lit_simps encode_append)

lemma invalid_world_selection_re_prompts_passes: "invalid_world_selection_re_prompts"
  by (simp add: invalid_world_selection_re_prompts_def test_facts del: lit_simps encode_append)

lemma client_disconnect_without_quit_passes: "client_disconnect_without_quit"
  by (simp add: client_disconnect_without_quit_def test_facts del: lit_simps encode_append)

lemma iac_bytes_stripped_during_session_passes: "iac_bytes_stripped_during_session"
  by (simp add: iac_bytes_stripped_during_session_def test_facts del: lit_simps encode_append)

lemma line_too_long_during_session_passes: "line_too_long_during_session"
  by (simp add: line_too_long_during_session_def test_facts del: lit_simps encode_append)

lemma buffer_overflow_disconnects_client_passes: "buffer_overflow_disconnects_client"
  by (simp add: buffer_overflow_disconnects_client_def test_facts del: lit_simps encode_append)

lemma rate_limited_connection_rejected_immediately_passes: "rate_limited_connection_rejected_immediately"
  by (simp add: rate_limited_connection_rejected_immediately_def test_facts del: lit_simps encode_append)

lemma successful_login_records_last_login_at_passes: "successful_login_records_last_login_at"
  by (simp add: successful_login_records_last_login_at_def test_facts del: lit_simps encode_append)

lemma world_list_loaded_from_toml_passes: "world_list_loaded_from_toml"
  by (simp add: world_list_loaded_from_toml_def test_facts del: lit_simps encode_append)

lemma shutdown_cancels_active_session_passes: "shutdown_cancels_active_session"
  by (simp add: shutdown_cancels_active_session_def test_facts del: lit_simps encode_append)

lemma shutdown_during_auth_passes: "shutdown_during_auth"
  by (simp add: shutdown_during_auth_def test_facts del: lit_simps encode_append)

lemma shutdown_during_world_selection_passes: "shutdown_during_world_selection"
  by (simp add: shutdown_during_world_selection_def test_facts del: lit_simps encode_append)

lemma shutdown_at_idle_session_passes: "shutdown_at_idle_session"
  by (simp add: shutdown_at_idle_session_def test_facts del: lit_simps encode_append)

lemmas connection_tests_pass =
  full_v01_demo_passes failed_login_re_prompts_for_username_passes three_failed_logins_disconnects_passes
  unknown_user_returns_auth_failed_passes iac_will_echo_before_password_prompt_passes iac_wont_echo_after_password_passes
  quit_at_username_state_passes quit_at_password_state_passes quit_at_world_selection_state_passes
  invalid_username_re_prompts_passes invalid_world_selection_re_prompts_passes client_disconnect_without_quit_passes
  iac_bytes_stripped_during_session_passes line_too_long_during_session_passes buffer_overflow_disconnects_client_passes
  rate_limited_connection_rejected_immediately_passes successful_login_records_last_login_at_passes world_list_loaded_from_toml_passes
  shutdown_cancels_active_session_passes shutdown_during_auth_passes shutdown_during_world_selection_passes
  shutdown_at_idle_session_passes

text \<open>
  The conversations of the tests of the connection handler come out as the tests demand: on the
  handler joined to its reader, after each thing the client sends the texts the test looks for can
  be read, and at the end the handler has returned without an error and the writer is shut down.
\<close>

theorem connection_tests_hold:
  "full_v01_demo \<and> failed_login_re_prompts_for_username \<and>
   three_failed_logins_disconnects \<and> unknown_user_returns_auth_failed \<and>
   iac_will_echo_before_password_prompt \<and> iac_wont_echo_after_password \<and>
   quit_at_username_state \<and> quit_at_password_state \<and>
   quit_at_world_selection_state \<and> invalid_username_re_prompts \<and>
   invalid_world_selection_re_prompts \<and> client_disconnect_without_quit \<and>
   iac_bytes_stripped_during_session \<and> line_too_long_during_session \<and>
   buffer_overflow_disconnects_client \<and> rate_limited_connection_rejected_immediately \<and>
   successful_login_records_last_login_at \<and> world_list_loaded_from_toml \<and>
   shutdown_cancels_active_session \<and> shutdown_during_auth \<and>
   shutdown_during_world_selection \<and> shutdown_at_idle_session"
  by (intro conjI; rule connection_tests_pass)

end
