(* ===== verification/ListenerTests.thy ===== *)
theory ListenerTests
  imports ServerExec ConnectionTests
begin

text \<open>
  The tests of \<open>crates/liaozhai-server/src/listener.rs\<close> as runs of the server, computed by
  \<open>sv_exec\<close>: the labels are what the test makes happen, in its order, with the steps of the
  tasks in between.
\<close>

section \<open>Fixtures\<close>

definition listener_registry :: world_registry where
  "listener_registry = registry_new [world_metadata_new 1 (lit ''test'') (lit ''Test World'') (lit ''A test.'')]"

definition test_server :: "nat \<Rightarrow> (unit, ustr) server" where
  "test_server max_connections =
    \<lparr>sv_cx = test_cx\<lparr>cx_registry := listener_registry\<rparr>, sv_shared = test_shared,
     sv_permits = max_connections, sv_tasks = [], sv_next = 0, sv_refused = [], sv_ended = [],
     sv_cancelled = False, sv_accepting = True, sv_stopped = False\<rparr>"

text \<open>The steps that a connection attempt and the end of a connection at a shutdown take.\<close>

definition client :: label where
  "client = Accept (V4 0x7F000001) []"

definition starts :: "nat \<Rightarrow> label" where
  "starts i = Begin i test_now test_now"

definition told_to_stop :: "nat \<Rightarrow> label list" where
  "told_to_stop i = [Serve i test_am Cancelled, Finish i]"

definition run_to :: "label list \<Rightarrow> ((unit, ustr) server \<Rightarrow> bool) \<Rightarrow> (unit, ustr) server \<Rightarrow> bool" where
  "run_to ls goal s = (case sv_exec_all ls s of Some s' \<Rightarrow> goal s' | None \<Rightarrow> False)"

text \<open>What the client of a task that runs or has ended can read.\<close>

definition client_reads :: "ustr list \<Rightarrow> nat \<Rightarrow> (unit, ustr) server \<Rightarrow> bool" where
  "client_reads parts i s =
    (case map_of (sv_tasks s) i of
       Some (Serving ip c) \<Rightarrow> reads_all parts (w_sent (cn_writer c))
     | Some (Starting ip w) \<Rightarrow> reads_all parts (w_sent w)
     | None \<Rightarrow>
         (case map_of (sv_ended s) i of Some w \<Rightarrow> reads_all parts (w_sent w) | None \<Rightarrow> False))"

section \<open>The tests\<close>

definition max_connections_rejects_excess :: bool where
  "max_connections_rejects_excess =
    (run_to [client, client, starts 0, starts 1, client]
       (\<lambda>s. (case sv_refused s of [w] \<Rightarrow> reads_all [lit ''Server is full''] (w_sent w) | _ \<Rightarrow> False) \<and>
          run_to ([Cancel, Leave_loop] @ told_to_stop 0 @ told_to_stop 1 @ [Drained]) sv_stopped s)
       (test_server 2))"

definition semaphore_released_on_disconnect :: bool where
  "semaphore_released_on_disconnect =
    (run_to [client, starts 0, Serve 0 test_am (Received (Line (lit ''quit''))), Finish 0, client, starts 1]
       (\<lambda>s. client_reads [lit ''Liaozhai MUX''] 1 s \<and>
          run_to ([Cancel, Leave_loop] @ told_to_stop 1 @ [Drained]) sv_stopped s)
       (test_server 1))"

definition shutdown_signal_drains_active_connections :: bool where
  "shutdown_signal_drains_active_connections =
    (run_to ([client, client, starts 0, starts 1, Cancel, Leave_loop] @ told_to_stop 0 @ told_to_stop 1)
       (\<lambda>s. client_reads [lit ''studio closes''] 0 s \<and> client_reads [lit ''studio closes''] 1 s \<and>
          run_to [Drained] sv_stopped s)
       (test_server 10))"

definition shutdown_drain_timeout_abandons_stuck_clients :: bool where
  "shutdown_drain_timeout_abandons_stuck_clients =
    (run_to [client, starts 0, Cancel, Leave_loop, Drain_timeout] sv_stopped (test_server 10))"

section \<open>All of them\<close>

lemma listener_texts:
  "valid_str SERVER_FULL_MSG" "str_contains (lit ''Server is full'') SERVER_FULL_MSG"
  "str_contains (lit ''studio closes'') SHUTDOWN_MSG"
  by code_simp+

lemma greeting_then:
  "valid_str s \<Longrightarrow> str_contains p s \<Longrightarrow>
   reads_all [p] (encode (BANNER @ initial_prompt) @ encode s)"
  using reads_text [of "(BANNER @ initial_prompt) @ s" "[p]"] greeting(1)
    str_contains_append [of p s "BANNER @ initial_prompt"]
  by (simp add: valid_str_def)

lemma limiter_of_test: "rl_failures (sh_limiter test_shared) = []"
  by (simp add: test_shared_code rate_limiter_new_def)

lemmas listener_facts = run_to_def client_def starts_def told_to_stop_def test_server_def begin_task_def
  is_throttled_def limiter_of_test write_raw_def writer_new_def set_task_def conn_new_def session_new_def
  serve_task_def end_task_def send_def close_def on_line_def on_disconnect_def reject_def writer_shutdown_def
  client_reads_def listener_texts quit_ends session_quits is_password_input_def greeting greeting_then
  answer_texts Let_def

lemma max_connections_rejects_excess_passes: "max_connections_rejects_excess"
  by (simp add: max_connections_rejects_excess_def listener_facts del: lit_simps encode_append)

lemma semaphore_released_on_disconnect_passes: "semaphore_released_on_disconnect"
  by (simp add: semaphore_released_on_disconnect_def listener_facts del: lit_simps encode_append)

lemma shutdown_signal_drains_active_connections_passes: "shutdown_signal_drains_active_connections"
  by (simp add: shutdown_signal_drains_active_connections_def listener_facts del: lit_simps encode_append)

lemma shutdown_drain_timeout_abandons_stuck_clients_passes: "shutdown_drain_timeout_abandons_stuck_clients"
  by (simp add: shutdown_drain_timeout_abandons_stuck_clients_def listener_facts del: lit_simps encode_append)

lemmas listener_tests_pass =
  max_connections_rejects_excess_passes
  semaphore_released_on_disconnect_passes
  shutdown_signal_drains_active_connections_passes
  shutdown_drain_timeout_abandons_stuck_clients_passes

end
