(* ===== verification/Attempts.thy ===== *)
theory Attempts
  imports ConnectionProps RateLimiterProps
begin

text \<open>
  Guessing passwords: what the handler's turns tell the rate limiter, and what the limiter then
  does to the next connection from the address. This joins \<open>connection.rs\<close> to
  \<open>rate_limiter.rs\<close>.
\<close>

section \<open>The verifications of a connection\<close>

text \<open>The outcome of the verification that handling an event makes, if it makes one.\<close>

definition verification :: "('p, 'h) session_context \<Rightarrow> conn_event \<Rightarrow> conn \<times> shared
    \<Rightarrow> (error + account option) option" where
  "verification cx ev s =
    (case ev of
       Incoming am (Received (Line l)) \<Rightarrow>
         if cn_closing (fst s) then None
         else
           (case handle_input (cn_session (fst s)) l of
              AuthPending u p \<Rightarrow>
                if is_ok (fst (send IAC_WONT_ECHO (fst s)))
                then Some (fst (verify_credentials (cx_services cx) (am_verify_fault am) u p (sh_store (snd s))))
                else None
            | _ \<Rightarrow> None)
     | _ \<Rightarrow> None)"

definition limiter_ops :: "shared_op list \<Rightarrow> rl_event list" where
  "limiter_ops ops = concat (map (\<lambda>op. case op of On_limiter e \<Rightarrow> [e] | On_store e \<Rightarrow> []) ops)"

text \<open>
  What the limiter is told while an event is handled: what others do to it, then a failure of
  the address for a refused password, a success for an accepted one, and nothing for an
  error of the store.
\<close>

fun told_limiter :: "('p, 'h) session_context \<Rightarrow> conn_event \<Rightarrow> conn \<times> shared \<Rightarrow> rl_event list" where
  "told_limiter cx (Elsewhere op) s = limiter_ops [op]"
| "told_limiter cx (Incoming am inc) s =
    (case verification cx (Incoming am inc) s of
       None \<Rightarrow> []
     | Some r \<Rightarrow> limiter_ops (am_meanwhile am) @
         (case r of
            Inl e \<Rightarrow> []
          | Inr (Some a) \<Rightarrow> [Cleared (cx_ip cx)]
          | Inr None \<Rightarrow> [Failed (cx_ip cx) (am_now1 am) (am_now2 am) (am_now3 am)]))"

fun limiter_log :: "('p, 'h) session_context \<Rightarrow> conn_event list \<Rightarrow> conn \<times> shared \<Rightarrow> rl_event list" where
  "limiter_log cx [] s = []"
| "limiter_log cx (ev # evs) s = told_limiter cx ev s @ limiter_log cx evs (conn_step cx ev s)"

fun refused_passwords :: "('p, 'h) session_context \<Rightarrow> conn_event list \<Rightarrow> conn \<times> shared \<Rightarrow> nat" where
  "refused_passwords cx [] s = 0"
| "refused_passwords cx (ev # evs) s =
    (if verification cx ev s = Some (Inr None) then 1 else 0) + refused_passwords cx evs (conn_step cx ev s)"

section \<open>One event\<close>

lemma limiter_fold:
  "sh_limiter (fold (apply_shared cx) ops sh) =
   fold (rl_step (cx_order cx) (cx_imin cx)) (limiter_ops ops) (sh_limiter sh)"
proof (induction ops arbitrary: sh)
  case (Cons op ops)
  then show ?case by (cases op) (simp_all add: limiter_ops_def)
qed (simp add: limiter_ops_def)

lemma count_completion [simp]: "cn_auth_failures (on_completion res c) = cn_auth_failures c"
  by (rule send_or_close_cases [of "encode (case complete_auth (cn_session c) res of Advance nxt out \<Rightarrow> out | _ \<Rightarrow> [])"
        "enter (case complete_auth (cn_session c) res of Advance nxt out \<Rightarrow> nxt | _ \<Rightarrow> Authenticating None)" c])
     (auto simp: on_completion_def split: transition.splits)

lemma count_send [simp]: "cn_auth_failures (snd (send data c)) = cn_auth_failures c"
  using snd_send [of data c] by auto

lemma count_send_or_close:
  "(\<And>d. cn_auth_failures (k d) = cn_auth_failures d) \<Longrightarrow>
   cn_auth_failures (send_or_close data k c) = cn_auth_failures c"
  by (rule send_or_close_cases [of data k c]) auto

lemma pending_limiter:
  assumes "is_ok (fst (send IAC_WONT_ECHO c))"
  shows "sh_limiter (snd (on_auth_pending cx am u p (c, sh))) =
      fold (rl_step (cx_order cx) (cx_imin cx))
        (limiter_ops (am_meanwhile am) @
         (case fst (verify_credentials (cx_services cx) (am_verify_fault am) u p (sh_store sh)) of
            Inl e \<Rightarrow> []
          | Inr (Some a) \<Rightarrow> [Cleared (cx_ip cx)]
          | Inr None \<Rightarrow> [Failed (cx_ip cx) (am_now1 am) (am_now2 am) (am_now3 am)]))
        (sh_limiter sh)"
    and "cn_auth_failures (fst (on_auth_pending cx am u p (c, sh))) =
      cn_auth_failures c +
        (if fst (verify_credentials (cx_services cx) (am_verify_fault am) u p (sh_store sh)) = Inr None
         then 1 else 0)"
proof -
  obtain c1 where c1: "send IAC_WONT_ECHO c = (Inr (), c1)" "cn_auth_failures c1 = cn_auth_failures c"
    using assms count_send [of IAC_WONT_ECHO c] by (cases "send IAC_WONT_ECHO c"; cases "fst (send IAC_WONT_ECHO c)") auto
  let ?v = "fst (verify_credentials (cx_services cx) (am_verify_fault am) u p (sh_store sh))"
  show "sh_limiter (snd (on_auth_pending cx am u p (c, sh))) =
      fold (rl_step (cx_order cx) (cx_imin cx))
        (limiter_ops (am_meanwhile am) @
         (case ?v of Inl e \<Rightarrow> [] | Inr (Some a) \<Rightarrow> [Cleared (cx_ip cx)]
          | Inr None \<Rightarrow> [Failed (cx_ip cx) (am_now1 am) (am_now2 am) (am_now3 am)]))
        (sh_limiter sh)"
    using c1 limiter_fold [of cx "am_meanwhile am" sh]
    by (auto simp: on_auth_pending_def meanwhile_def on_auth_result_def on_success_def on_failure_def Let_def
        split: sum.split option.split)
  show "cn_auth_failures (fst (on_auth_pending cx am u p (c, sh))) =
      cn_auth_failures c + (if ?v = Inr None then 1 else 0)"
    using c1
    by (auto simp: on_auth_pending_def on_auth_result_def Let_def split: sum.split option.split)
qed

lemma count_disconnect [simp]: "cn_auth_failures (on_disconnect out c) = cn_auth_failures c"
  by (simp add: on_disconnect_def Let_def)

lemma step_told:
  "sh_limiter (snd (conn_step cx ev s)) =
     fold (rl_step (cx_order cx) (cx_imin cx)) (told_limiter cx ev s) (sh_limiter (snd s)) \<and>
   cn_auth_failures (fst (conn_step cx ev s)) =
     cn_auth_failures (fst s) + (if verification cx ev s = Some (Inr None) then 1 else 0)"
proof -
  obtain c sh where s: "s = (c, sh)" by (cases s)
  show ?thesis
  proof (cases ev)
    case (Elsewhere op)
    then show ?thesis
      using limiter_fold [of cx "[op]" sh] by (simp add: s verification_def)
  next
    case (Incoming am inc)
    consider (line) l where "inc = Received (Line l)" "\<not> cn_closing c"
      | (closed) "cn_closing c" | (other) "\<And>l. inc \<noteq> Received (Line l)" "\<not> cn_closing c"
      by blast
    then show ?thesis
    proof cases
      case line
      let ?c = "c\<lparr>cn_line_count := cn_line_count c + 1\<rparr>"
      have sent: "fst (send IAC_WONT_ECHO ?c) = fst (send IAC_WONT_ECHO c)"
        by (simp add: send_def prod.case_eq_if)
      show ?thesis
      proof (cases "handle_input (cn_session c) l")
        case (AuthPending u p)
        show ?thesis
        proof (cases "is_ok (fst (send IAC_WONT_ECHO c))")
          case True
          then show ?thesis
            using pending_limiter [of ?c cx am u p sh] sent line AuthPending
            by (simp add: Incoming s on_line_def verification_def)
        next
          case False
          then have "on_auth_pending cx am u p (?c, sh) = (close (snd (send IAC_WONT_ECHO ?c)), sh)"
            using sent by (cases "send IAC_WONT_ECHO ?c"; cases "fst (send IAC_WONT_ECHO ?c)")
              (auto simp: on_auth_pending_def)
          then show ?thesis
            using False line AuthPending by (simp add: Incoming s on_line_def verification_def)
        qed
      qed (use line in \<open>simp_all add: Incoming s on_line_def verification_def on_stay_def on_advance_def
            count_send_or_close\<close>)
    next
      case closed
      then show ?thesis
        by (auto simp: Incoming s verification_def split: incoming.split codec_item.split)
    next
      case other
      then show ?thesis
        by (cases inc; cases "case inc of Received i \<Rightarrow> i | _ \<Rightarrow> LineTooLong"; cases "case inc of Failed_read e \<Rightarrow> e | _ \<Rightarrow> CodecIo []")
           (auto simp: Incoming s verification_def count_send_or_close)
    qed
  qed
qed

section \<open>Properties\<close>

text \<open>
  C15: every guess is counted, twice. Over any events of a connection, the limiter is told of each
  refused password as a failure of the client's address, in order, between what the other
  connections tell it, and of nothing else but the accepted ones; and the connection's own
  counter grows by exactly the number of refused passwords.
\<close>

theorem every_guess_is_counted:
  "sh_limiter (snd (fold (conn_step cx) evs s)) =
     fold (rl_step (cx_order cx) (cx_imin cx)) (limiter_log cx evs s) (sh_limiter (snd s)) \<and>
   cn_auth_failures (fst (fold (conn_step cx) evs s)) =
     cn_auth_failures (fst s) + of_nat (refused_passwords cx evs s)"
proof (induction evs arbitrary: s)
  case (Cons ev evs)
  then show ?case
    using step_told [of cx ev s] by (simp add: add.assoc)
qed simp

text \<open>
  C16: an address that guesses is turned away. When the limiter, since it was made, has been told in
  clock order of as many failures of an address, since its last success, within the window as the
  limit allows, and the addresses seen fit in its map, the next connection from the address is
  sent the notice and nothing else, whatever the client does, and the accounts are left alone.
  This takes a limit that is not zero and a clock that is not younger than the window, for then
  the check forgets the failures and the guesser is let in.
\<close>

theorem guessers_are_turned_away:
  assumes "sh_limiter sh = fold (rl_step (cx_order cx) (cx_imin cx)) log (rate_limiter_new w mf me)"
    and "allowed (timely (cx_imin cx) ips) (tracked_step (cx_order cx) (cx_imin cx)) log
      (start, [], rate_limiter_new w mf me)"
    and "length ips \<le> me" and "0 < mf"
    and "fold time_after log start \<le> now1" and "cx_imin cx \<le> now1 - w"
    and "mf \<le> length (filter (\<lambda>t. now1 - w \<le> t) (failures_of (cx_ip cx) (fold log_step log [])))"
  shows "\<exists>sh'. handle_connection_with_codec cx now1 now2 codec evs (writer_new []) sh =
      (Some (Inr ()), \<lparr>w_sent = encode AUTH_RATE_LIMITED_MSG, w_faults = [], w_shut = True\<rparr>, sh') \<and>
    sh_store sh' = sh_store sh"
proof -
  let ?s = "fold (tracked_step (cx_order cx) (cx_imin cx)) log (start, [], rate_limiter_new w mf me)"
  have "tracked_inv ips ?s"
    using assms(2,3) by (intro tracked.run_keeps fresh_inv)
  moreover have "?s = (fold time_after log start, fold log_step log [], sh_limiter sh)"
    using tracked_limits [of "cx_order cx" "cx_imin cx" log start "[]"] assms(1) by (simp add: prod_eq_iff)
  ultimately have "remembers (cx_ip cx) (fold time_after log start, fold log_step log [], sh_limiter sh)"
    by simp
  from verdict_in_window [OF this assms(5)] have "fst (is_throttled (cx_imin cx) now1 now2 (cx_ip cx) (sh_limiter sh))"
    using assms(1,4,6,7) by simp
  then show ?thesis
    by (simp add: handle_connection_with_codec_def handle_connection_def prod.case_eq_if Let_def
        write_raw_def writer_new_def writer_shutdown_def)
qed

definition guessing_log :: "rl_event list" where
  "guessing_log = [Failed (V4 1) 100 100 100, Checked (V4 1) 101 101, Failed (V4 1) 102 102 102]"

theorem guessers_are_turned_away_witness:
  "\<exists>sh'. handle_connection_with_codec example_cx 110 110 codec_new []
      (writer_new []) (example_shared\<lparr>sh_limiter := fold (rl_step id 0) guessing_log (rate_limiter_new 60 2 100)\<rparr>) =
      (Some (Inr ()), \<lparr>w_sent = encode AUTH_RATE_LIMITED_MSG, w_faults = [], w_shut = True\<rparr>, sh') \<and>
    sh_store sh' = sh_store (example_shared\<lparr>sh_limiter := fold (rl_step id 0) guessing_log (rate_limiter_new 60 2 100)\<rparr>)"
  by (rule guessers_are_turned_away [where log = guessing_log and ips = "[V4 1]" and start = 0 and w = 60
        and mf = 2 and me = 100])
     (simp_all add: example_cx_def guessing_log_def failures_of_def)

end
