(* ===== verification/ServerLogins.thy ===== *)
theory ServerLogins
  imports ServerExec
begin

text \<open>
  Who is logged in on the server. The moves of one connection's session, joined to the trace of
  all steps of the server: whoever chooses a world typed, into that connection, a username and
  then a password which the store, as it was at that step, accepted for the account.
\<close>

section \<open>How an event moves a session\<close>

abbreviation state_of :: "conn \<Rightarrow> session_state" where
  "state_of c \<equiv> ses_state (cn_session c)"

lemma enter_state:
  "state_of (send_or_close data (enter n) c) = state_of c \<or> state_of (send_or_close data (enter n) c) = n"
  using session_of_enter [of data n c, OF refl] by metis

lemma completion_state:
  "state_of (on_completion res c) \<in> {state_of c, Authenticating None} \<union> range WorldSelection"
  using enter_state [of "encode (case complete_auth (cn_session c) res of Advance nxt out \<Rightarrow> out | _ \<Rightarrow> [])"
      "case complete_auth (cn_session c) res of Advance nxt out \<Rightarrow> nxt | _ \<Rightarrow> Authenticating None" c]
  by (cases res) (auto simp: on_completion_def complete_auth_def)

lemma auth_pending_state:
  "state_of (fst (on_auth_pending cx am u p (c, sh))) \<in> {state_of c, Authenticating None} \<union> range WorldSelection"
proof (rule send_cases [of IAC_WONT_ECHO c])
  fix w
  assume "send IAC_WONT_ECHO c = (Inr (), c\<lparr>cn_writer := w\<rparr>)"
  then show ?thesis
    using completion_state [of _ "c\<lparr>cn_writer := w\<rparr>"]
      completion_state [of None "c\<lparr>cn_writer := w, cn_auth_failures := cn_auth_failures c + 1\<rparr>"]
    by (auto simp: on_auth_pending_def on_auth_result_def Let_def split: sum.split option.split)
qed (simp add: on_auth_pending_def)

lemma session_step_cases:
  assumes "conn_step cx (Incoming am inc) (c, sh) = (c', sh')"
  obtains (same) "state_of c' = state_of c" | (again) "state_of c' = Authenticating None"
  | (username) l where "inc = Received (Line l)" "state_of c' = Authenticating (Some (trim l))"
  | (login) l u a where "inc = Received (Line l)" "state_of c = Authenticating (Some u)"
      "state_of c' = WorldSelection a"
      "fst (verify_credentials (cx_services cx) (am_verify_fault am) u (trim l) (sh_store sh)) = Inr (Some a)"
proof (cases "\<exists>a. state_of c' = WorldSelection a \<and> state_of c \<noteq> WorldSelection a")
  case True
  then show thesis
    using login_step_origin [OF assms] login by blast
next
  case no_login: False
  show thesis
  proof (cases "\<exists>l. inc = Received (Line l) \<and> \<not> cn_closing c")
    case True
    then obtain l where l: "inc = Received (Line l)" and "on_line cx am l (c, sh) = (c', sh')"
      using assms by auto
    let ?c = "c\<lparr>cn_line_count := cn_line_count c + 1\<rparr>"
    have "state_of c' \<in> {state_of c, Authenticating None, Authenticating (Some (trim l))} \<union> range WorldSelection"
    proof (cases rule: handle_input_cases [of l "cn_session c"])
      case name
      then show ?thesis
        using \<open>on_line cx am l (c, sh) = (c', sh')\<close>
          enter_state [of "echo_prefix (Authenticating (Some (trim l))) @ encode PASSWORD_PROMPT"
            "Authenticating (Some (trim l))" ?c]
        by (auto simp: on_line_def Let_def on_advance_def)
    next
      case (password u)
      then have "on_auth_pending cx am u (trim l) (?c, sh) = (c', sh')"
        using \<open>on_line cx am l (c, sh) = (c', sh')\<close> by (simp add: on_line_def Let_def)
      with auth_pending_state [of cx am u "trim l" ?c sh]
      have "state_of c' \<in> {state_of ?c, Authenticating None} \<union> range WorldSelection"
        by (simp only: fst_conv)
      then show ?thesis by simp blast
    qed (use \<open>on_line cx am l (c, sh) = (c', sh')\<close> in \<open>auto simp: on_line_def Let_def on_stay_def\<close>)
    then consider "state_of c' = state_of c" | "state_of c' = Authenticating None"
      | "state_of c' = Authenticating (Some (trim l))" | a where "state_of c' = WorldSelection a"
      by blast
    then show thesis
    proof cases
      case 4
      with no_login same show thesis by simp
    qed (use same again username l in simp_all)
  next
    case False
    then have "state_of c' = state_of c"
      using assms by (cases "(cx, am, inc, (c, sh))" rule: on_incoming.cases) (auto split: if_splits)
    then show thesis by (rule same)
  qed
qed

section \<open>What a trace tells of a session\<close>

abbreviation typed :: "nat \<Rightarrow> ambient \<Rightarrow> ustr \<Rightarrow> label" where
  "typed i am l \<equiv> Serve i am (Received (Line l))"

definition named_in :: "nat \<Rightarrow> ustr \<Rightarrow> ('p, 'h) trace \<Rightarrow> bool" where
  "named_in i u tr = (\<exists>tr1 am l s tr2. tr = tr1 @ (typed i am l, s) # tr2 \<and> u = trim l)"

definition verified_in :: "('p, 'h) services \<Rightarrow> nat \<Rightarrow> account \<Rightarrow> ('p, 'h) trace \<Rightarrow> bool" where
  "verified_in svc i a tr =
    (\<exists>tr1 am l s tr2 u. tr = tr1 @ (typed i am l, s) # tr2 \<and> named_in i u tr1 \<and>
      fst (verify_credentials svc (am_verify_fault am) u (trim l) (sh_store (sv_shared s))) = Inr (Some a))"

definition login_ok :: "('p, 'h) services \<Rightarrow> ('p, 'h) trace \<Rightarrow> nat \<Rightarrow> task \<Rightarrow> bool" where
  "login_ok svc tr i t =
    (case t of
       Starting ip w \<Rightarrow> True
     | Serving ip c \<Rightarrow>
         (case state_of c of
            Authenticating None \<Rightarrow> True
          | Authenticating (Some u) \<Rightarrow> named_in i u tr
          | WorldSelection a \<Rightarrow> verified_in svc i a tr))"

lemma named_later: "named_in i u tr \<Longrightarrow> named_in i u (tr @ tr')"
  unfolding named_in_def by force

lemma verified_later: "verified_in svc i a tr \<Longrightarrow> verified_in svc i a (tr @ tr')"
  unfolding verified_in_def by force

lemma login_ok_later: "login_ok svc tr i t \<Longrightarrow> login_ok svc (tr @ tr') i t"
  by (auto simp: login_ok_def named_later verified_later split: task.splits session_state.splits option.splits)

lemma login_ok_serve:
  assumes "login_ok (cx_services (sv_cx s)) tr i (Serving ip c)"
    and "conn_step (at_ip (sv_cx s) ip) (Incoming am inc) (c, sv_shared s) = (c', sh')"
  shows "login_ok (cx_services (sv_cx s)) (tr @ [(Serve i am inc, s)]) i (Serving ip c')"
  using assms(2)
proof (cases rule: session_step_cases)
  case same
  then show ?thesis
    using login_ok_later [OF assms(1)] by (simp add: login_ok_def)
next
  case (username l)
  then show ?thesis
    by (simp add: login_ok_def named_in_def) blast
next
  case (login l u a)
  then have "named_in i u tr"
    using assms(1) by (simp add: login_ok_def)
  then show ?thesis
    using login by (simp add: login_ok_def verified_in_def at_ip_def) blast
qed (simp add: login_ok_def)

lemma sv_step_logins:
  assumes "sv_step l s s'" "\<And>i t. (i, t) \<in> set (sv_tasks s) \<Longrightarrow> login_ok (cx_services (sv_cx s)) tr i t"
    and "(j, u) \<in> set (sv_tasks s')"
  shows "login_ok (cx_services (sv_cx s)) (tr @ [(l, s)]) j u"
  using assms
proof (induction rule: sv_step.induct)
  case (accept s ip faults)
  then show ?case
    by (auto simp: login_ok_later) (simp add: login_ok_def)
next
  case (begin_conn i ip w s now1 now2)
  have "login_ok svc tr' i (Serving ip (conn_new reg w1))" for svc tr' reg w1
    by (simp add: login_ok_def conn_new_def session_new_def)
  then show ?case
    using begin_conn.prems
    by (auto simp: begin_task_def Let_def end_task_def login_ok_later prod.case_eq_if
        dest!: set_task_cases split: if_splits sum.splits)
next
  case (serve i ip c s inc am)
  obtain c' sh' where "conn_step (at_ip (sv_cx s) ip) (Incoming am inc) (c, sv_shared s) = (c', sh')"
    by fastforce
  then show ?case
    using serve login_ok_serve [of s tr i ip c am inc c' sh']
    by (auto simp: serve_task_def login_ok_later simp del: conn_step.simps dest!: set_task_cases)
qed (auto simp: login_ok_later end_task_def)

lemma happened_logins:
  assumes "happened s0 tr s" "sv_tasks s0 = []" "(i, t) \<in> set (sv_tasks s)"
  shows "login_ok (cx_services (sv_cx s)) tr i t"
  using assms
proof (induction arbitrary: i t rule: happened.induct)
  case (then_step tr s l s')
  then show ?case
    using sv_step_logins [OF then_step.hyps(2)] sv_step_cx [OF then_step.hyps(2)] by auto
qed simp

section \<open>The property\<close>

text \<open>
  C3: who is logged in on the server. In every state that the server can reach, with whatever
  order of the steps of its connections and the shutdown, a connection that chooses a world as an
  account had first a line and later another delivered to it by its own reader, and at that
  later step the store, as all connections had left it by then, verified the second line as the
  password of the first, and gave that account.
\<close>

theorem logins_are_verified:
  assumes "server_start wo cfg = Inr s0" and "happened s0 tr s"
    and "(i, Serving ip c) \<in> set (sv_tasks s)" and "ses_state (cn_session c) = WorldSelection a"
  shows "\<exists>tr1 am1 name s1 tr2 am2 pw s2 tr3.
    tr = tr1 @ (Serve i am1 (Received (Line name)), s1) # tr2 @ (Serve i am2 (Received (Line pw)), s2) # tr3 \<and>
    fst (verify_credentials (cx_services (sv_cx s)) (am_verify_fault am2) (trim name) (trim pw)
      (sh_store (sv_shared s2))) = Inr (Some a)"
proof -
  have "login_ok (cx_services (sv_cx s)) tr i (Serving ip c)"
    using happened_logins [OF assms(2) _ assms(3)] server_start_empty [OF assms(1)] by simp
  then show ?thesis
    using assms(4) by (fastforce simp: login_ok_def verified_in_def named_in_def)
qed

lemma exec_happened:
  "sv_exec_all ls s = Some s' \<Longrightarrow> happened s0 tr s \<Longrightarrow> \<exists>tr'. happened s0 tr' s'"
proof (induction ls arbitrary: s tr)
  case (Cons l ls)
  then show ?case
    by (auto simp: bind_eq_Some_conv dest: happened.then_step [OF _ sv_exec_sound])
qed auto

definition example_run :: "label list" where
  "example_run =
    [Accept (V4 7) [], Begin 0 0 0, Serve 0 example_am (Received (Line (lit ''alice''))),
     Serve 0 example_am (Received (Line (lit '' pw '')))]"

definition example_login :: "(unit, ustr) server option" where
  "example_login =
    (case server_start example_wo app_config_default of
       Inr s0 \<Rightarrow> sv_exec_all example_run s0
     | Inl e \<Rightarrow> None)"

definition chooses :: "task \<Rightarrow> account option" where
  "chooses t =
    (case t of
       Serving ip c \<Rightarrow> (case ses_state (cn_session c) of WorldSelection a \<Rightarrow> Some a | _ \<Rightarrow> None)
     | _ \<Rightarrow> None)"

lemma example_login_chooses:
  "(case example_login of
      Some s \<Rightarrow> list_ex (\<lambda>(i, t). i = 0 \<and> chooses t \<noteq> None) (sv_tasks s)
    | None \<Rightarrow> False)"
  by code_simp

theorem logins_are_verified_witness:
  "\<exists>s0 tr s a tr1 am1 name s1 tr2 am2 pw s2 tr3.
    server_start example_wo app_config_default = Inr s0 \<and> happened s0 tr s \<and>
    tr = tr1 @ (Serve 0 am1 (Received (Line name)), s1) # tr2 @ (Serve 0 am2 (Received (Line pw)), s2) # tr3 \<and>
    fst (verify_credentials (cx_services (sv_cx s)) (am_verify_fault am2) (trim name) (trim pw)
      (sh_store (sv_shared s2))) = Inr (Some a)"
proof -
  obtain s t a where s: "example_login = Some s" "(0, t) \<in> set (sv_tasks s)" "chooses t = Some a"
    using example_login_chooses by (auto simp: list_ex_iff split: option.splits)
  then obtain ip c where c: "(0, Serving ip c) \<in> set (sv_tasks s)" "ses_state (cn_session c) = WorldSelection a"
    by (auto simp: chooses_def split: task.splits session_state.splits)
  obtain s0 where s0: "server_start example_wo app_config_default = Inr s0"
    using s(1) by (auto simp: example_login_def split: sum.splits)
  then obtain tr where tr: "happened s0 tr s"
    using s(1) exec_happened [OF _ happened.nothing, of example_run s0 s] by (auto simp: example_login_def)
  show ?thesis
    using s0 tr logins_are_verified [OF s0 tr c] by blast
qed

end
