(* ===== verification/Spec2Isabelle.thy ===== *)
theory Spec2Isabelle
  imports CodecProps WorldsProps RateLimiterProps AccountProps SessionProps ConnectionProps
    ServerProps CliProps WireProps ServerExec BasicTests CodecTests SessionTests ServiceTests ConnectionTests
    ListenerTests Attempts ServerLogins
begin

text \<open>
  \<^bold>\<open>The Liaozhai MUX server\<close>

  A server for text worlds: a client connects over TCP, sees a banner, gives a username and
  a password, and chooses a world from a list. This development models the Rust workspace
  under \<open>src/crates/\<close> and proves what its parts guarantee, alone and together.

  \<^bold>\<open>The parts and the theories that model them\<close>

  \<^item> \<open>Prelude\<close>: the machine types, results as sums, generic facts on lists, and the locale
    \<open>guarded_machine\<close> (a step, a guard, an invariant, and the invariant of every run).
    \<open>RustText\<close>, \<open>Utf8\<close>: the standard library's functions on text that the program
    calls, and UTF-8 with its strict and its lossy decoding.
  \<^item> \<open>Core\<close>: \<open>liaozhai-core\<close> (\<open>constants.rs\<close>, \<open>error.rs\<close>, \<open>id.rs\<close>).
  \<^item> \<open>Codec\<close>: \<open>liaozhai-net/src/codec.rs\<close>, from bytes to lines: \<open>strip_loop\<close> is the loop
    of \<open>strip_iac\<close> on the indices of the buffer, \<open>decode\<close> and \<open>decode_eof\<close> are the two
    operations of the decoder. \<open>CodecStream\<close> holds the stream: the locale
    \<open>framed_decoder\<close> for what the framed reader needs of a decoder, interpreted on
    \<open>decode\<close>, and \<open>feed\<close>, the items that a read gives. \<open>Reading\<close>: the reader's loop as a
    relation, and sequences of reads.
  \<^item> \<open>Worlds\<close>: \<open>liaozhai-worlds\<close> (\<open>metadata.rs\<close>, \<open>registry.rs\<close>), with the locale
    \<open>menu\<close> for what the session needs of a numbered list.
  \<^item> \<open>RateLimiter\<close>: \<open>liaozhai-auth/src/rate_limiter.rs\<close>, the failures of each address in a
    sliding window.
  \<^item> \<open>Accounts\<close>: \<open>liaozhai-auth\<close> (\<open>account.rs\<close>, \<open>params.rs\<close>, \<open>store.rs\<close>);
    \<open>AccountStore\<close> gives the contract of the store as the locale
    \<open>credential_store\<close>, interpreted on its operations.
  \<^item> \<open>Session\<close>: \<open>liaozhai-net/src/session.rs\<close>, a pure state machine from a line to a
    transition.
  \<^item> \<open>Connection\<close>: \<open>output.rs\<close>, \<open>context.rs\<close> and \<open>connection.rs\<close> of
    \<open>liaozhai-net\<close>. \<open>conn_step\<close> is one turn of the handler's loop, one function for each
    arm of its \<open>match\<close>; \<open>handle_connection\<close> adds what comes before and after the loop.
    \<open>ConnectionInv\<close>: the invariant of a connection. \<open>Wire\<close> joins the handler to its reader:
    \<open>wire_step\<close> takes what happens at the socket (a read, the end of the input, a failed read, the
    shutdown) through the codec to the handler, and agrees with the handler on the lines the
    reader gives. \<open>Exchange\<close> has the answer to one line in each state of a session.
  \<^item> \<open>Config\<close>, \<open>Server\<close>, \<open>Cli\<close>: \<open>config.rs\<close>, \<open>listener.rs\<close> and \<open>main.rs\<close> of
    \<open>liaozhai-server\<close>. \<open>sv_step\<close> is the step relation of the accept loop and the tasks it
    spawns, \<open>sv_exec\<close> in \<open>ServerExec\<close> the same as a function, so that runs can be computed, and
    \<open>ServerTasks\<close> reads off a trace of steps what each task was given and relates its steps to
    \<open>handle_connection\<close>.
  \<^item> \<open>BasicTests\<close>, \<open>CodecTests\<close>, \<open>SessionTests\<close>, \<open>ServiceTests\<close> (accounts, store, limiter and
    registry), \<open>ConnectionTests\<close> and \<open>ListenerTests\<close>: the tests of the source files, each a truth
    value that is proved of the model. They tie the model to what the program is known to do.

  A connection feeds what it reads to the codec, hands each line to its session, and does what
  the transition says: it writes, changes the session's state, or asks the store to verify
  credentials and then tells the limiter and the store the result. Connections share the store
  and the limiter. What the others do to them is part of a connection's events, before a turn
  of the loop and while a password is being verified; the server's steps interleave the turns
  of all tasks. The command line works on the same database.

  \<^bold>\<open>How state and effects are modelled\<close>

  A struct is a record, an enum a datatype, a \<open>u32\<close> or \<open>u64\<close> a word. A \<open>usize\<close> that only
  counts or indexes is a natural number, and the parsing of one checks the bound of 64 bits.
  Text is a list of scalar values, a buffer a list of bytes. Errors are values of sum types,
  each early return a branch; a panic under a lock poisons the store. An \<open>Instant\<close> and a
  \<open>Duration\<close> are integers in nanoseconds, and the clock's readings are arguments. A write
  takes its outcome from a list of failures to come and may send a part of its bytes.

  \<^bold>\<open>What is a parameter\<close>

  What other crates and the operating system do: argon2 and its PHC strings, the text and the
  making of a \<open>Uuid\<close>, SQLite's comparison of text and its failures, reading files,
  decoding TOML, the path's parent, binding an address, \<open>rpassword\<close>, the \<open>time\<close> crate and
  the iteration order of a \<open>HashMap\<close>. The framed reader of tokio-util is not a parameter: its
  documented loop (decode until nothing is ready, then read; at the end of the input
  \<open>decode_eof\<close> until nothing is ready) is written out as \<open>feed\<close> and \<open>feed_eof\<close>. \<open>services_ok\<close> states what is relied on: a \<open>Uuid\<close> is read
  back from its text, and a hash argon2 made can be parsed and accepts its password.

  \<^bold>\<open>What the lemmas show\<close>

  \<^item> \<open>CodecProps\<close>: the loop of \<open>strip_iac\<close>, which works in place on indices, computes the
    reading of the telnet protocol by a three-state reader; text is decoded to the same lines
    however it is cut into reads, with the exceptions stated; what is sent as a line arrives as
    that line; the buffer's limits; the end of the reader's loop.
  \<^item> \<open>WorldsProps\<close>, \<open>RateLimiterProps\<close>, \<open>AccountProps\<close>, \<open>SessionProps\<close>: the contracts
    of the four components the handler uses.
  \<^item> \<open>ConnectionProps\<close>: a login from the first byte to the last, the client's echo, the
    limit on attempts, and that a world is only reached with a verified password. \<open>WireProps\<close>:
    the cuts between reads do not matter to the handler, the end of the input ends the last line, the
    reader's memory is bounded, and every line is answered. \<open>Attempts\<close>: every refused password is
    counted by the connection and by the limiter, and an address that guesses is turned away.
    \<open>ServerLogins\<close>: on the server as a whole, whoever chooses a world typed a username and then
    its password, which the store accepted at that step.
  \<^item> \<open>ServerProps\<close>: configuration and startup, the invariant of every reachable state of the
    server, the limit on connections, that each task serves its client as the handler would alone,
    and that a shutdown lets all tasks end. \<open>ServerExec\<close>: the runs are determined by their labels.
  \<^item> \<open>CliProps\<close>: the account commands, and how their passwords relate to those of sessions.

  Theorems also state where the program falls short of its documentation; they hold of the
  code as it is.

  \<^bold>\<open>Termination and bounds\<close>

  \<open>strip_loop\<close> ends since the distance from the read index to the end of the buffer shrinks,
  and \<open>decode\<close> since its recursive call follows the consumption of a terminator. The framed
  reader's loop is computed by \<open>drain_all\<close>, with one round more than the buffer has bytes;
  this is enough, since every item consumes a byte, also at the end of the input, and
  \<open>Reading\<close> proves that the loop without a bound, as the relation \<open>drains\<close>, always ends, in one
  way only, where \<open>drain_all\<close> does.

  \<^bold>\<open>Not modelled\<close>

  Logging beyond the choice of its filter, argument parsing, the scheduler of the runtime beyond the
  interleaving of steps, the panic of the semaphore for a number of connections beyond its own maximum
  (an eighth of the range of a \<open>usize\<close>), failures of the console, and the tests that are about other crates
  (JSON for identifiers, fresh identifiers being distinct, the parameters argon2 accepts, the
  command line run as a process).
\<close>

end
